theory Spec2Isabelle
  imports Complex_Main
begin

section \<open>Sound chat: FSK framing over audio\<close>

text \<open>
  The sender (\<^verbatim>\<open>sender.py\<close>, class \<^verbatim>\<open>SoundSender\<close>) turns a text into a sample
  buffer, the receiver (\<^verbatim>\<open>receiver.py\<close>, class \<^verbatim>\<open>SoundReceiver\<close>) turns a sample
  buffer back into a text. Python's \<^verbatim>\<open>str\<close> is a sequence of Unicode code points, so a
  message on the sending side is a list of code points (\<open>nat\<close>). Bit strings and the
  received text only ever hold ASCII characters and are HOL strings. Python's floats
  (samples, durations, frequencies) are idealised as real numbers, with one exception: a
  sample count \<^verbatim>\<open>int(self.sample_rate * duration)\<close> depends on the last bit of the
  product, so there the product is the IEEE 754 double-precision product, rounded to
  nearest. \<^verbatim>\<open>int(x)\<close> on a float truncates towards zero.
\<close>

subsection \<open>Python primitives used by both programs\<close>

datatype py_exception = ValueError | ZeroDivisionError | OverflowError

text \<open>\<^verbatim>\<open>int(x)\<close> for a finite float \<open>x\<close>: truncation towards zero.\<close>

definition py_int :: "real \<Rightarrow> int" where
  "py_int x = (if 0 \<le> x then \<lfloor>x\<rfloor> else \<lceil>x\<rceil>)"

text \<open>
  Rounding to double precision (IEEE 754 binary64, round to nearest, ties to even).
  \<open>binade x\<close> is the exponent \<open>e\<close> with \<open>2 ^ e \<le> \<bar>x\<bar> < 2 ^ (e + 1)\<close>, kept between
  \<open>-1022\<close> (below it the doubles are subnormal, all with the spacing \<open>2 ^ (-1074)\<close>) and
  1023. The doubles of that binade are the multiples of \<open>2 ^ (e - 52)\<close>, and
  \<open>round_double x\<close> is the multiple nearest to \<open>x\<close>, the one with the even factor when
  two are equally near. The result is not cut off at the largest finite double
  \<open>double_max\<close>: a value that rounds beyond it is an overflow.
\<close>

definition round_half_even :: "real \<Rightarrow> int" where
  "round_half_even x =
     (let f = \<lfloor>x\<rfloor>; r = x - real_of_int f
      in if r < 1 / 2 then f
         else if 1 / 2 < r then f + 1
         else if even f then f else f + 1)"

definition pow2 :: "int \<Rightarrow> real" where
  "pow2 e = (if 0 \<le> e then 2 ^ nat e else 1 / 2 ^ nat (- e))"

function binade_up :: "real \<Rightarrow> int \<Rightarrow> int" where
  "binade_up a e = (if 2 \<le> a \<and> e < 1023 then binade_up (a / 2) (e + 1) else e)"
  by pat_completeness auto
termination
  by (relation "measure (\<lambda>(a, e). nat (1023 - e))") auto

declare binade_up.simps [simp del]

function binade_down :: "real \<Rightarrow> int \<Rightarrow> int" where
  "binade_down a e = (if a < 1 \<and> - 1022 < e then binade_down (a * 2) (e - 1) else e)"
  by pat_completeness auto
termination
  by (relation "measure (\<lambda>(a, e). nat (e + 1022))") auto

declare binade_down.simps [simp del]

definition binade :: "real \<Rightarrow> int" where
  "binade x = (if 1 \<le> \<bar>x\<bar> then binade_up \<bar>x\<bar> 0 else binade_down \<bar>x\<bar> 0)"

definition round_double :: "real \<Rightarrow> real" where
  "round_double x =
     (if x = 0 then 0
      else let ulp = pow2 (binade x - 52)
           in real_of_int (round_half_even (x / ulp)) * ulp)"

definition double_max :: real where
  "double_max = (2 ^ 53 - 1) * 2 ^ 971"

text \<open>
  The product of two floats. Both operands are finite doubles: an operand written here
  as a decimal fraction, such as the literal \<^verbatim>\<open>0.1\<close>, stands for the double nearest to
  it, and an operand that is a double already is left as it is. The exact product of the
  two doubles is then rounded.
\<close>

definition float_mul :: "real \<Rightarrow> real \<Rightarrow> real" where
  "float_mul x y = round_double (round_double x * round_double y)"

text \<open>
  \<^verbatim>\<open>int(n * x)\<close> for an \<^verbatim>\<open>int\<close> \<open>n\<close> and a float \<open>x\<close>. The integer is converted to a
  float first, and the conversion raises \<^verbatim>\<open>OverflowError\<close> when it rounds beyond the
  largest double; a product beyond the largest double is an infinity, on which
  \<^verbatim>\<open>int\<close> raises \<^verbatim>\<open>OverflowError\<close>.
\<close>

definition int_of_product :: "int \<Rightarrow> real \<Rightarrow> py_exception + int" where
  "int_of_product n x =
     (if double_max < \<bar>round_double (real_of_int n)\<bar> then Inl OverflowError
      else
        let product = float_mul (real_of_int n) x
        in if double_max < \<bar>product\<bar> then Inl OverflowError
           else Inr (py_int product))"

definition digit_char :: "nat \<Rightarrow> char" where
  "digit_char d = char_of (48 + d)"

text \<open>\<^verbatim>\<open>format(n, 'b')\<close>: the binary digits of \<open>n\<close>, most significant first.\<close>

fun bin_digits :: "nat \<Rightarrow> string" where
  "bin_digits n = (if n < 2 then [digit_char n] else bin_digits (n div 2) @ [digit_char (n mod 2)])"

declare bin_digits.simps [simp del]

text \<open>\<^verbatim>\<open>str(n)\<close> for a non-negative integer: its decimal digits.\<close>

fun dec_digits :: "nat \<Rightarrow> string" where
  "dec_digits n = (if n < 10 then [digit_char n] else dec_digits (n div 10) @ [digit_char (n mod 10)])"

declare dec_digits.simps [simp del]

text \<open>\<^verbatim>\<open>s.ljust(width, c)\<close>.\<close>

definition ljust :: "string \<Rightarrow> nat \<Rightarrow> char \<Rightarrow> string" where
  "ljust s width c = s @ replicate (width - length s) c"

text \<open>
  \<^verbatim>\<open>int(s, 2)\<close> on a string of binary digits; \<open>None\<close> stands for the \<^verbatim>\<open>ValueError\<close>
  raised on the empty string or on another character. (Python also accepts a sign,
  surrounding blanks, underscores and a \<^verbatim>\<open>0b\<close> prefix; the receiver only ever builds
  strings over \<^verbatim>\<open>'0'\<close> and \<^verbatim>\<open>'1'\<close>, and the statements below are about those.)
\<close>

fun base2_acc :: "nat \<Rightarrow> string \<Rightarrow> nat option" where
  "base2_acc acc [] = Some acc"
| "base2_acc acc (c # cs) =
     (if c = CHR ''0'' then base2_acc (2 * acc) cs
      else if c = CHR ''1'' then base2_acc (2 * acc + 1) cs
      else None)"

definition int_base2 :: "string \<Rightarrow> nat option" where
  "int_base2 s = (if s = [] then None else base2_acc 0 s)"

subsection \<open>Sender: text to bits\<close>

text \<open>\<^verbatim>\<open>format(n, '08b')\<close>: binary digits, zero-padded on the left to at least 8.\<close>

definition format_08b :: "nat \<Rightarrow> string" where
  "format_08b n = (let d = bin_digits n in replicate (8 - length d) CHR ''0'' @ d)"

text \<open>\<^verbatim>\<open>SoundSender.text_to_binary\<close>:
  \<^verbatim>\<open>''.join(format(ord(char), '08b') for char in text)\<close>.\<close>

definition text_to_binary :: "nat list \<Rightarrow> string" where
  "text_to_binary text = concat (map format_08b text)"

subsection \<open>Receiver: bits to text\<close>

text \<open>
  \<^verbatim>\<open>SoundReceiver.binary_to_text\<close>. The loop \<^verbatim>\<open>for i in range(0, len(binary_str), 8)\<close>
  is \<open>binary_to_text_loop\<close>, with the index \<open>i\<close> and the text built so far.
\<close>

definition render_code :: "nat \<Rightarrow> string" where
  "render_code char_code =
     (if 32 \<le> char_code \<and> char_code \<le> 126 then [char_of char_code]
      else ''['' @ dec_digits char_code @ '']'')"

function binary_to_text_loop :: "string \<Rightarrow> nat \<Rightarrow> string \<Rightarrow> py_exception + string" where
  "binary_to_text_loop binary_str i text =
     (if i < length binary_str then
        (let byte = take 8 (drop i binary_str) in
         if length byte = 8 then
           (case int_base2 byte of
              None \<Rightarrow> Inl ValueError
            | Some char_code \<Rightarrow> binary_to_text_loop binary_str (i + 8) (text @ render_code char_code))
         else binary_to_text_loop binary_str (i + 8) text)
      else Inr text)"
  by pat_completeness auto
termination
  by (relation "measure (\<lambda>(s, i, t). length s - i)") auto

declare binary_to_text_loop.simps [simp del]

definition binary_to_text :: "string \<Rightarrow> py_exception + string" where
  "binary_to_text binary_str =
     (let padded = (if length binary_str mod 8 \<noteq> 0
                    then ljust binary_str ((length binary_str + 7) div 8 * 8) CHR ''0''
                    else binary_str)
      in binary_to_text_loop padded 0 [])"

subsection \<open>Protocol constants\<close>

text \<open>
  Both classes fix the same constants in \<^verbatim>\<open>__init__\<close>; the sample rate and the bit
  duration are the constructor's arguments (\<^verbatim>\<open>44100\<close> and \<^verbatim>\<open>0.1\<close> by default).
\<close>

record config =
  sample_rate :: int
  bit_duration :: real

definition default_config :: config where
  "default_config = \<lparr>sample_rate = 44100, bit_duration = 1 / 10\<rparr>"

definition freq_0 :: real where "freq_0 = 1000"
definition freq_1 :: real where "freq_1 = 2000"
definition freq_start :: real where "freq_start = 500"
definition freq_end :: real where "freq_end = 3000"
definition freq_tolerance :: real where "freq_tolerance = 50"
definition min_amplitude :: real where "min_amplitude = 1 / 100"

subsection \<open>Sender: tones and the assembled signal\<close>

text \<open>
  \<^verbatim>\<open>np.linspace(start, stop, num, endpoint)\<close> for \<open>num \<ge> 0\<close>. With the end point and
  a single sample the result is \<^verbatim>\<open>[start]\<close>.
\<close>

definition linspace :: "real \<Rightarrow> real \<Rightarrow> nat \<Rightarrow> bool \<Rightarrow> real list" where
  "linspace start stop num endpoint =
     (if endpoint \<and> num = 1 then [start]
      else map (\<lambda>i. start + real i * ((stop - start) / (if endpoint then real (num - 1) else real num)))
             [0..<num])"

text \<open>\<^verbatim>\<open>tone[:k] *= ramp\<close> and \<^verbatim>\<open>tone[-k:] *= ramp\<close>, for \<open>0 < k \<le> length tone\<close>.\<close>

definition scale_head :: "nat \<Rightarrow> real list \<Rightarrow> real list \<Rightarrow> real list" where
  "scale_head k ramp tone = map2 (*) (take k tone) ramp @ drop k tone"

definition scale_tail :: "nat \<Rightarrow> real list \<Rightarrow> real list \<Rightarrow> real list" where
  "scale_tail k ramp tone =
     take (length tone - k) tone @ map2 (*) (drop (length tone - k) tone) ramp"

text \<open>
  \<^verbatim>\<open>SoundSender.generate_tone\<close>. The sample count is \<^verbatim>\<open>int(self.sample_rate * duration)\<close>;
  \<^verbatim>\<open>np.linspace\<close> raises \<^verbatim>\<open>ValueError\<close> on a negative count, and the function has no
  check of its own.
\<close>

definition generate_tone :: "config \<Rightarrow> real \<Rightarrow> real \<Rightarrow> py_exception + real list" where
  "generate_tone cfg frequency duration =
     (case int_of_product (sample_rate cfg) duration of
        Inl e \<Rightarrow> Inl e
      | Inr samples \<Rightarrow>
          if samples < 0 then Inl ValueError
          else
            let t = linspace 0 duration (nat samples) False;
                tone = map (\<lambda>x. sin (2 * pi * frequency * x)) t;
                fade_samples = min 100 (nat samples div 10)
            in Inr (if fade_samples > 0
                    then scale_tail fade_samples (linspace 1 0 fade_samples True)
                           (scale_head fade_samples (linspace 0 1 fade_samples True) tone)
                    else tone))"

text \<open>The loop of \<^verbatim>\<open>create_signal\<close> over the bits, one tone per bit.\<close>

fun bit_tones :: "config \<Rightarrow> string \<Rightarrow> py_exception + real list list" where
  "bit_tones cfg [] = Inr []"
| "bit_tones cfg (b # bs) =
     (case generate_tone cfg (if b = CHR ''1'' then freq_1 else freq_0) (bit_duration cfg) of
        Inl e \<Rightarrow> Inl e
      | Inr tone \<Rightarrow>
          (case bit_tones cfg bs of
             Inl e \<Rightarrow> Inl e
           | Inr tones \<Rightarrow> Inr (tone # tones)))"

text \<open>
  \<^verbatim>\<open>SoundSender.create_signal\<close>. \<^verbatim>\<open>np.zeros\<close> raises \<^verbatim>\<open>ValueError\<close> on a negative
  length and \<^verbatim>\<open>np.max\<close> on an empty buffer.
\<close>

definition create_signal :: "config \<Rightarrow> nat list \<Rightarrow> py_exception + real list" where
  "create_signal cfg text =
     (let binary_data = text_to_binary text in
      case generate_tone cfg freq_start (2 / 10) of
        Inl e \<Rightarrow> Inl e
      | Inr start_tone \<Rightarrow>
          (case int_of_product (sample_rate cfg) (1 / 10) of
             Inl e \<Rightarrow> Inl e
           | Inr silence_len \<Rightarrow>
               if silence_len < 0 then Inl ValueError
               else
                 let silence = replicate (nat silence_len) (0::real) in
                 case bit_tones cfg binary_data of
                   Inl e \<Rightarrow> Inl e
                 | Inr tones \<Rightarrow>
                     (case generate_tone cfg freq_end (2 / 10) of
                        Inl e \<Rightarrow> Inl e
                      | Inr end_tone \<Rightarrow>
                          (let full_signal = start_tone @ silence @ concat tones @ silence @ end_tone in
                           if full_signal = [] then Inl ValueError
                           else
                             let max_val = Max (set (map abs full_signal)) in
                             Inr (if max_val > 0
                                  then map (\<lambda>x. x / max_val * (8 / 10)) full_signal
                                  else full_signal)))))"

subsection \<open>Receiver: dominant frequency and classification\<close>

text \<open>\<^verbatim>\<open>np.hanning(M)\<close>: \<^verbatim>\<open>0.5 + 0.5*cos(pi*n/(M-1))\<close> for \<^verbatim>\<open>n = 1-M, 3-M, ..., M-1\<close>.\<close>

definition hanning :: "nat \<Rightarrow> real list" where
  "hanning M =
     (if M = 0 then []
      else if M = 1 then [1]
      else map (\<lambda>j. 1 / 2 + 1 / 2 * cos (pi * (1 - real M + 2 * real j) / real (M - 1))) [0..<M])"

text \<open>\<^verbatim>\<open>scipy.fft.fft\<close>: the discrete Fourier transform.\<close>

definition fft :: "real list \<Rightarrow> complex list" where
  "fft xs =
     (let n = length xs in
      map (\<lambda>k. \<Sum>j<n. complex_of_real (xs ! j) * cis (- (2 * pi * real j * real k / real n))) [0..<n])"

text \<open>\<^verbatim>\<open>scipy.fft.fftfreq(n, d)\<close> for \<open>n > 0\<close>.\<close>

definition fftfreq :: "nat \<Rightarrow> real \<Rightarrow> real list" where
  "fftfreq n d =
     map (\<lambda>k. (if k < (n - 1) div 2 + 1 then real k else real k - real n) * (1 / (real n * d))) [0..<n]"

text \<open>\<^verbatim>\<open>np.argmax\<close>: the first index of the maximum.\<close>

definition argmax :: "real list \<Rightarrow> nat" where
  "argmax xs = length (takeWhile (\<lambda>x. x \<noteq> Max (set xs)) xs)"

text \<open>The magnitude spectrum of \<^verbatim>\<open>detect_dominant_frequency\<close>: the first half of the
  transform of the windowed chunk.\<close>

definition magnitude :: "real list \<Rightarrow> real list" where
  "magnitude audio_chunk =
     (let windowed = map2 (*) audio_chunk (hanning (length audio_chunk));
          fft_data = fft windowed
      in map cmod (take (length fft_data div 2) fft_data))"

text \<open>
  \<^verbatim>\<open>SoundReceiver.detect_dominant_frequency\<close>. \<^verbatim>\<open>1/self.sample_rate\<close> raises
  \<^verbatim>\<open>ZeroDivisionError\<close> at rate 0, and \<^verbatim>\<open>np.max\<close> raises \<^verbatim>\<open>ValueError\<close> on the empty
  spectrum of a one-sample chunk.
\<close>

definition detect_dominant_frequency :: "config \<Rightarrow> real list \<Rightarrow> py_exception + real" where
  "detect_dominant_frequency cfg audio_chunk =
     (if length audio_chunk = 0 then Inr 0
      else if sample_rate cfg = 0 then Inl ZeroDivisionError
      else
        let freqs = fftfreq (length audio_chunk) (1 / real_of_int (sample_rate cfg));
            mag = magnitude audio_chunk;
            freqs' = take (length freqs div 2) freqs
        in if mag = [] then Inl ValueError
           else if Max (set mag) < min_amplitude then Inr 0
           else Inr \<bar>freqs' ! argmax mag\<bar>)"

datatype classification = START | END | ZERO | ONE | NOISE

text \<open>\<^verbatim>\<open>SoundReceiver.classify_frequency\<close>; \<open>ZERO\<close> and \<open>ONE\<close> are the strings
  \<^verbatim>\<open>'0'\<close> and \<^verbatim>\<open>'1'\<close>.\<close>

definition classify_frequency :: "real \<Rightarrow> classification" where
  "classify_frequency freq =
     (if \<bar>freq - freq_start\<bar> < freq_tolerance then START
      else if \<bar>freq - freq_end\<bar> < freq_tolerance then END
      else if \<bar>freq - freq_0\<bar> < freq_tolerance then ZERO
      else if \<bar>freq - freq_1\<bar> < freq_tolerance then ONE
      else NOISE)"

subsection \<open>Receiver: chunking, boundary search and bit extraction\<close>

text \<open>
  The chunking loop of \<^verbatim>\<open>process_audio\<close>,
  \<^verbatim>\<open>for i in range(0, len(audio_data), chunk_size)\<close>, for a positive chunk size: a chunk
  is kept when it is at least half full.
\<close>

function chunk_loop :: "real list \<Rightarrow> nat \<Rightarrow> nat \<Rightarrow> real list list" where
  "chunk_loop audio_data chunk_size i =
     (if chunk_size = 0 \<or> length audio_data \<le> i then []
      else
        (let chunk = take chunk_size (drop i audio_data) in
         (if chunk_size div 2 \<le> length chunk then [chunk] else [])
           @ chunk_loop audio_data chunk_size (i + chunk_size)))"
  by pat_completeness auto
termination
  by (relation "measure (\<lambda>(a, c, i). length a - i)") auto

declare chunk_loop.simps [simp del]

text \<open>
  The chunk size is \<^verbatim>\<open>int(self.sample_rate * self.bit_duration)\<close>. \<^verbatim>\<open>range\<close> raises
  \<^verbatim>\<open>ValueError\<close> on step 0 and is empty for a negative step.
\<close>

definition make_chunks :: "config \<Rightarrow> real list \<Rightarrow> py_exception + real list list" where
  "make_chunks cfg audio_data =
     (case int_of_product (sample_rate cfg) (bit_duration cfg) of
        Inl e \<Rightarrow> Inl e
      | Inr samples_per_bit \<Rightarrow>
          (let chunk_size = samples_per_bit
           in if chunk_size = 0 then Inl ValueError
              else if chunk_size < 0 then Inr []
              else Inr (chunk_loop audio_data (nat chunk_size) 0)))"

text \<open>The classification pass: one (frequency, classification) pair per chunk.\<close>

fun analyze_chunks :: "config \<Rightarrow> real list list \<Rightarrow> py_exception + (real \<times> classification) list" where
  "analyze_chunks cfg [] = Inr []"
| "analyze_chunks cfg (chunk # chunks) =
     (case detect_dominant_frequency cfg chunk of
        Inl e \<Rightarrow> Inl e
      | Inr freq \<Rightarrow>
          (case analyze_chunks cfg chunks of
             Inl e \<Rightarrow> Inl e
           | Inr classifications \<Rightarrow> Inr ((freq, classify_frequency freq) # classifications)))"

text \<open>
  The boundary loop: the first \<open>START\<close> sets \<open>start_idx\<close>, the first \<open>END\<close> after it
  sets \<open>end_idx\<close> and leaves the loop.
\<close>

fun find_boundaries ::
  "(real \<times> classification) list \<Rightarrow> nat \<Rightarrow> nat option \<Rightarrow> nat option \<times> nat option" where
  "find_boundaries [] i start_idx = (start_idx, None)"
| "find_boundaries ((freq, c) # rest) i start_idx =
     (if c = START \<and> start_idx = None then find_boundaries rest (i + 1) (Some i)
      else if c = END \<and> start_idx \<noteq> None then (start_idx, Some i)
      else find_boundaries rest (i + 1) start_idx)"

text \<open>The two \<^verbatim>\<open>while\<close> loops that move \<open>data_start\<close> forward and \<open>data_end\<close> back
  over \<open>NOISE\<close> chunks.\<close>

function skip_noise_forward :: "(real \<times> classification) list \<Rightarrow> nat \<Rightarrow> nat" where
  "skip_noise_forward classifications data_start =
     (if data_start < length classifications \<and> snd (classifications ! data_start) = NOISE
      then skip_noise_forward classifications (data_start + 1)
      else data_start)"
  by pat_completeness auto
termination
  by (relation "measure (\<lambda>(cs, d). length cs - d)") auto

declare skip_noise_forward.simps [simp del]

function skip_noise_backward :: "(real \<times> classification) list \<Rightarrow> nat \<Rightarrow> nat \<Rightarrow> nat" where
  "skip_noise_backward classifications data_start data_end =
     (if data_start < data_end \<and> snd (classifications ! (data_end - 1)) = NOISE
      then skip_noise_backward classifications data_start (data_end - 1)
      else data_end)"
  by pat_completeness auto
termination
  by (relation "measure (\<lambda>(cs, s, e). e)") auto

declare skip_noise_backward.simps [simp del]

text \<open>The best guess for a \<open>NOISE\<close> chunk, and the bits one chunk contributes.\<close>

definition guess_bit :: "real \<Rightarrow> char" where
  "guess_bit freq = (if \<bar>freq - freq_0\<bar> < \<bar>freq - freq_1\<bar> then CHR ''0'' else CHR ''1'')"

fun chunk_bits :: "real \<times> classification \<Rightarrow> string" where
  "chunk_bits (freq, ZERO) = ''0''"
| "chunk_bits (freq, ONE) = ''1''"
| "chunk_bits (freq, NOISE) = [guess_bit freq]"
| "chunk_bits (freq, START) = []"
| "chunk_bits (freq, END) = []"

definition extract_bits :: "(real \<times> classification) list \<Rightarrow> nat \<Rightarrow> nat \<Rightarrow> string" where
  "extract_bits classifications data_start data_end =
     concat (map (\<lambda>i. chunk_bits (classifications ! i)) [data_start..<data_end])"

text \<open>
  \<^verbatim>\<open>process_audio\<close> returns \<^verbatim>\<open>None\<close> at three places, told apart by what it prints:
  no start signal, no data bits, and a failed conversion of the bits. An exception of the
  chunking or of the classification pass leaves the function.
\<close>

datatype failure = NoStartSignal | EmptyPayload | ConversionFailed | Raised py_exception

text \<open>The part of \<^verbatim>\<open>process_audio\<close> after the classification pass.\<close>

definition process_classifications :: "(real \<times> classification) list \<Rightarrow> failure + string" where
  "process_classifications classifications =
     (case find_boundaries classifications 0 None of
        (None, end_opt) \<Rightarrow> Inl NoStartSignal
      | (Some start_idx, end_opt) \<Rightarrow>
          (let end_idx = (case end_opt of None \<Rightarrow> length classifications | Some e \<Rightarrow> e);
               data_start = skip_noise_forward classifications (start_idx + 1);
               data_end = skip_noise_backward classifications data_start end_idx;
               binary_data = extract_bits classifications data_start data_end
           in if binary_data = [] then Inl EmptyPayload
              else (case binary_to_text binary_data of
                      Inl e \<Rightarrow> Inl ConversionFailed
                    | Inr message \<Rightarrow> Inr message)))"

text \<open>\<^verbatim>\<open>SoundReceiver.process_audio\<close>.\<close>

definition process_audio :: "config \<Rightarrow> real list \<Rightarrow> failure + string" where
  "process_audio cfg audio_data =
     (case make_chunks cfg audio_data of
        Inl e \<Rightarrow> Inl (Raised e)
      | Inr chunks \<Rightarrow>
          (case analyze_chunks cfg chunks of
             Inl e \<Rightarrow> Inl (Raised e)
           | Inr classifications \<Rightarrow> process_classifications classifications))"

subsection \<open>The text codec as the specification words it\<close>

text \<open>
  The encoder of the specification: one 8-bit, zero-padded, most-significant-bit-first
  group per character, in character order, and the failure \<open>UnsupportedCodePoint\<close>
  when a code point exceeds 255.
\<close>

definition byte_group :: "nat \<Rightarrow> string" where
  "byte_group c = map (\<lambda>i. digit_char (c div 2 ^ i mod 2)) (rev [0..<8])"

datatype codec_error = UnsupportedCodePoint

definition spec_text_encode :: "nat list \<Rightarrow> codec_error + string" where
  "spec_text_encode text =
     (if list_all (\<lambda>c. c \<le> 255) text then Inr (concat (map byte_group text))
      else Inl UnsupportedCodePoint)"

text \<open>
  The decoder of the specification: pad on the right with \<^verbatim>\<open>'0'\<close> to the next multiple
  of 8, partition into 8-bit groups in order, read each group as an unsigned integer, and
  append the character for a value in [32,126] and the token \<^verbatim>\<open>[value]\<close> otherwise.
\<close>

definition pad_to_bytes :: "string \<Rightarrow> string" where
  "pad_to_bytes bits = bits @ replicate ((8 - length bits mod 8) mod 8) CHR ''0''"

function groups_of_8 :: "string \<Rightarrow> string list" where
  "groups_of_8 bits = (if length bits < 8 then [] else take 8 bits # groups_of_8 (drop 8 bits))"
  by pat_completeness auto
termination
  by (relation "measure length") auto

declare groups_of_8.simps [simp del]

definition unsigned_value :: "string \<Rightarrow> nat" where
  "unsigned_value g =
     (\<Sum>i\<leftarrow>[0..<length g]. if g ! i = CHR ''1'' then 2 ^ (length g - Suc i) else 0)"

definition placeholder_or_char :: "nat \<Rightarrow> string" where
  "placeholder_or_char v =
     (if v \<in> {32..126} then [char_of v] else ''['' @ dec_digits v @ '']'')"

definition spec_text_decode :: "string \<Rightarrow> string" where
  "spec_text_decode bits =
     concat (map (\<lambda>g. placeholder_or_char (unsigned_value g)) (groups_of_8 (pad_to_bytes bits)))"

subsection \<open>The tone generator as the specification words it\<close>

text \<open>
  The sample count of the specification's generator: \<open>round(sampleRate \<times> duration)\<close>
  samples, and the failure \<open>InvalidDuration\<close> for a negative duration.
\<close>

datatype tone_error = InvalidDuration

definition spec_tone_length :: "int \<Rightarrow> real \<Rightarrow> tone_error + int" where
  "spec_tone_length rate duration =
     (if duration < 0 then Inl InvalidDuration else Inr (round (real_of_int rate * duration)))"

subsection \<open>The chunks of a transmitted frame\<close>

text \<open>
  At the default rate 44100 and bit duration 0.1 the receiver's chunk has 4410 samples, and
  every segment that \<^verbatim>\<open>create_signal\<close> concatenates is a whole number of chunks: the
  0.2 s start tone fills two chunks, each silence one, each bit tone one, the 0.2 s end tone
  two. \<open>frame_chunk_frequencies\<close> lists the frequencies of these segments chunk by chunk,
  0 for a silent chunk, and \<open>frame_classifications\<close> pairs each with its classification.
\<close>

definition frame_chunk_frequencies :: "string \<Rightarrow> real list" where
  "frame_chunk_frequencies binary_data =
     [freq_start, freq_start, 0]
       @ map (\<lambda>bit. if bit = CHR ''1'' then freq_1 else freq_0) binary_data
       @ [0, freq_end, freq_end]"

definition frame_classifications :: "string \<Rightarrow> (real \<times> classification) list" where
  "frame_classifications binary_data =
     map (\<lambda>freq. (freq, classify_frequency freq)) (frame_chunk_frequencies binary_data)"

subsection \<open>An auxiliary bound\<close>

text \<open>
  The weight that bounds, sample by sample, how far a chunk of a generated tone is from an
  unfaded tone under the periodic Hann window: the symmetric window of \<^verbatim>\<open>np.hanning\<close>
  differs from the periodic one by at most \<open>pi / 4410\<close>, and the 100 samples at each end
  may carry the fade of \<^verbatim>\<open>generate_tone\<close>.
\<close>

definition edge_weight :: "nat \<Rightarrow> real" where
  "edge_weight n = (if 100 \<le> n \<and> n < 4310 then pi / 4410 else 1)"

section \<open>Properties\<close>

lemmas freq_defs = freq_0_def freq_1_def freq_start_def freq_end_def freq_tolerance_def

subsection \<open>The classifier\<close>

text \<open>
  C8. With the named frequencies 500, 3000, 1000 and 2000 and tolerance 50, at most one of
  the four comparisons of \<open>classify_frequency\<close> holds for a frequency: no real frequency
  lies within the tolerance of two named frequencies.
\<close>

theorem tolerance_windows_disjoint:
  "length (filter (\<lambda>c. \<bar>f - c\<bar> < freq_tolerance) [freq_start, freq_end, freq_0, freq_1]) \<le> 1"
  by (simp add: freq_defs)

text \<open>
  C10. The comparison with the tolerance is strict: a frequency exactly 50 Hz away from a
  named frequency is classified \<open>NOISE\<close>; so are 550, 1050 and 1950 Hz.
\<close>

theorem tolerance_boundary_is_noise:
  "(\<forall>c f. c \<in> set [freq_start, freq_end, freq_0, freq_1] \<longrightarrow> \<bar>f - c\<bar> = freq_tolerance
            \<longrightarrow> classify_frequency f = NOISE)
   \<and> classify_frequency 550 = NOISE
   \<and> classify_frequency 1050 = NOISE
   \<and> classify_frequency 1950 = NOISE"
  by (auto simp: classify_frequency_def freq_defs)

theorem tolerance_boundary_is_noise_witness:
  "freq_start \<in> set [freq_start, freq_end, freq_0, freq_1] \<and> \<bar>450 - freq_start\<bar> = freq_tolerance
   \<and> classify_frequency 450 = NOISE \<and> classify_frequency 451 = START"
  using tolerance_boundary_is_noise
  by (simp add: classify_frequency_def freq_defs)

subsection \<open>Bit extraction\<close>

lemma extract_bits_split:
  assumes "data_start \<le> i" and "i < data_end"
  shows "extract_bits cls data_start data_end =
           extract_bits cls data_start i @ chunk_bits (cls ! i) @ extract_bits cls (Suc i) data_end"
proof -
  from assms have "[data_start..<data_end] = [data_start..<i] @ i # [Suc i..<data_end]"
    by (metis le_add_diff_inverse less_imp_le_nat upt_add_eq_append upt_conv_Cons)
  then show ?thesis by (simp add: extract_bits_def)
qed

text \<open>
  C5. A chunk of the payload window \<open>[data_start, data_end)\<close> classified \<open>NOISE\<close>
  contributes exactly one bit, at its place: \<^verbatim>\<open>'0'\<close> when its frequency is nearer to 1000
  than to 2000, \<^verbatim>\<open>'1'\<close> otherwise, so a tie (1500 Hz) gives \<^verbatim>\<open>'1'\<close>. The extraction is a
  total function. 1300 Hz is \<open>NOISE\<close> and gives \<^verbatim>\<open>'0'\<close>.
\<close>

theorem noise_fallback_nearest_bit:
  assumes "data_start \<le> i" and "i < data_end" and "snd (classifications ! i) = NOISE"
  shows "extract_bits classifications data_start data_end =
           extract_bits classifications data_start i
             @ [guess_bit (fst (classifications ! i))]
             @ extract_bits classifications (Suc i) data_end
         \<and> (\<forall>freq. guess_bit freq =
               (if \<bar>freq - 1000\<bar> < \<bar>freq - 2000\<bar> then CHR ''0'' else CHR ''1''))
         \<and> guess_bit 1500 = CHR ''1''
         \<and> classify_frequency 1300 = NOISE \<and> guess_bit 1300 = CHR ''0''"
proof -
  obtain freq c where "classifications ! i = (freq, c)"
    by (cases "classifications ! i")
  with assms(3) have "chunk_bits (classifications ! i) = [guess_bit (fst (classifications ! i))]"
    by simp
  with extract_bits_split[OF assms(1,2)] show ?thesis
    by (simp add: guess_bit_def classify_frequency_def freq_defs)
qed

theorem noise_fallback_nearest_bit_witness:
  "(0::nat) \<le> 1 \<and> (1::nat) < 3
   \<and> snd ([(1000::real, ZERO), (1300, NOISE), (2000, ONE)] ! 1) = NOISE
   \<and> extract_bits [(1000, ZERO), (1300, NOISE), (2000, ONE)] 0 3 =
       extract_bits [(1000, ZERO), (1300, NOISE), (2000, ONE)] 0 1
         @ [guess_bit (fst ([(1000, ZERO), (1300, NOISE), (2000, ONE)] ! 1))]
         @ extract_bits [(1000, ZERO), (1300, NOISE), (2000, ONE)] (Suc 1) 3"
  using noise_fallback_nearest_bit[of 0 1 3 "[(1000, ZERO), (1300, NOISE), (2000, ONE)]"]
  by simp

subsection \<open>Text to bits\<close>

lemma digit_char_0: "digit_char 0 = CHR ''0''"
  by code_simp

lemma digit_char_1: "digit_char (Suc 0) = CHR ''1''"
  by code_simp

lemma bin_digits_nonempty: "bin_digits n \<noteq> []"
  by (subst bin_digits.simps) simp

lemma bin_digits_long: "2 ^ k \<le> n \<Longrightarrow> k < length (bin_digits n)"
proof (induction k arbitrary: n)
  case 0
  then show ?case using bin_digits_nonempty[of n] by (cases "bin_digits n") auto
next
  case (Suc k)
  then have "2 ^ k \<le> n div 2" by simp
  from Suc.IH[OF this] have "k < length (bin_digits (n div 2))" .
  moreover have "(1::nat) \<le> 2 ^ k" by simp
  with Suc.prems have "\<not> n < 2" unfolding power_Suc by linarith
  ultimately show ?case by (subst bin_digits.simps) simp
qed

lemma bin_digits_padded:
  "n < 2 ^ Suc k \<Longrightarrow>
   length (bin_digits n) \<le> Suc k \<and>
   replicate (Suc k - length (bin_digits n)) CHR ''0'' @ bin_digits n =
     map (\<lambda>i. digit_char (n div 2 ^ i mod 2)) (rev [0..<Suc k])"
proof (induction k arbitrary: n)
  case 0
  then have "n < 2" by simp
  then show ?case by (subst (1 2 3) bin_digits.simps) simp
next
  case (Suc k)
  show ?case
  proof (cases "n < 2")
    case True
    then have bd: "bin_digits n = [digit_char n]" by (subst bin_digits.simps) simp
    have z: "n div 2 ^ i mod 2 = (if i = 0 then n else 0)" for i
    proof (cases i)
      case 0
      with True show ?thesis by simp
    next
      case (Suc m)
      have "(1::nat) \<le> 2 ^ m" by simp
      with True have "n < 2 ^ i" unfolding Suc power_Suc by linarith
      then show ?thesis by (simp add: Suc)
    qed
    have "map (\<lambda>i. digit_char (n div 2 ^ i mod 2)) (rev [0..<Suc (Suc k)]) =
          map (\<lambda>i. digit_char (if i = 0 then n else 0)) (rev [0..<Suc (Suc k)])"
      by (simp only: z)
    also have "\<dots> = replicate (Suc k) (digit_char 0) @ [digit_char n]"
      by (induction k) (simp_all add: replicate_append_same)
    finally show ?thesis by (simp add: bd digit_char_0)
  next
    case False
    then have bd: "bin_digits n = bin_digits (n div 2) @ [digit_char (n mod 2)]"
      by (subst bin_digits.simps) simp
    from Suc.prems have "n div 2 < 2 ^ Suc k" by simp
    from Suc.IH[OF this] have ih:
      "length (bin_digits (n div 2)) \<le> Suc k"
      "replicate (Suc k - length (bin_digits (n div 2))) CHR ''0'' @ bin_digits (n div 2) =
         map (\<lambda>i. digit_char (n div 2 div 2 ^ i mod 2)) (rev [0..<Suc k])"
      by simp_all
    have shift: "rev [0..<Suc (Suc k)] = map Suc (rev [0..<Suc k]) @ [0]"
      by (metis map_Suc_upt rev.simps(2) rev_map upt_conv_Cons zero_less_Suc)
    have dd: "n div 2 div 2 ^ i = n div 2 ^ Suc i" for i
      by (simp add: div_mult2_eq)
    have "map (\<lambda>i. digit_char (n div 2 ^ i mod 2)) (rev [0..<Suc (Suc k)]) =
          map (\<lambda>i. digit_char (n div 2 div 2 ^ i mod 2)) (rev [0..<Suc k]) @ [digit_char (n mod 2)]"
      unfolding shift by (simp add: dd o_def)
    with ih show ?thesis by (simp add: bd Suc_diff_le)
  qed
qed

lemma format_08b_byte: "c \<le> 255 \<Longrightarrow> format_08b c = byte_group c"
  using bin_digits_padded[of c 7] by (simp add: format_08b_def byte_group_def Let_def)

lemma format_08b_wide: "255 < c \<Longrightarrow> format_08b c = bin_digits c \<and> 8 < length (bin_digits c)"
  using bin_digits_long[of 8 c] by (simp add: format_08b_def Let_def)

text \<open>
  C3 (as the code has it). \<^verbatim>\<open>text_to_binary\<close> has no failure: on a text whose code
  points are all at most 255 it yields what the specification's encoder yields, one 8-bit
  most-significant-bit-first group per character in character order; a code point above
  255 is written with all its binary digits, more than eight.
\<close>

theorem text_to_binary_groups:
  "(list_all (\<lambda>c. c \<le> 255) msg \<longrightarrow> spec_text_encode msg = Inr (text_to_binary msg))
   \<and> (\<forall>c. 255 < c \<longrightarrow> format_08b c = bin_digits c \<and> 8 < length (format_08b c))
   \<and> text_to_binary msg = concat (map format_08b msg)"
proof -
  have "list_all (\<lambda>c. c \<le> 255) msg \<Longrightarrow> concat (map format_08b msg) = concat (map byte_group msg)"
    by (induction msg) (simp_all add: format_08b_byte)
  then have "list_all (\<lambda>c. c \<le> 255) msg \<longrightarrow> spec_text_encode msg = Inr (text_to_binary msg)"
    by (simp add: spec_text_encode_def text_to_binary_def)
  moreover have "\<forall>c. 255 < c \<longrightarrow> format_08b c = bin_digits c \<and> 8 < length (format_08b c)"
    using format_08b_wide by simp
  moreover have "text_to_binary msg = concat (map format_08b msg)"
    by (simp add: text_to_binary_def)
  ultimately show ?thesis by blast
qed

theorem text_to_binary_groups_witness:
  "list_all (\<lambda>c. c \<le> 255) [72, 73::nat] \<and> spec_text_encode [72, 73] = Inr (text_to_binary [72, 73])
   \<and> (255::nat) < 256 \<and> format_08b 256 = bin_digits 256"
  using text_to_binary_groups[of "[72, 73]"] by simp

text \<open>
  C3 as stated fails at the one-character text with code point 256: the specification's
  encoder fails, the code returns nine bits.
\<close>

theorem unsupported_code_point_counterexample:
  "spec_text_encode [256] = Inl UnsupportedCodePoint \<and> text_to_binary [256] = ''100000000''"
  by code_simp

subsection \<open>Bits to text\<close>

lemma unsigned_value_Nil: "unsigned_value [] = 0"
  by (simp add: unsigned_value_def)

lemma unsigned_value_Cons:
  "unsigned_value (c # cs) = (if c = CHR ''1'' then 2 ^ length cs else 0) + unsigned_value cs"
proof -
  have "[0..<Suc (length cs)] = 0 # map Suc [0..<length cs]"
    by (simp add: upt_conv_Cons map_Suc_upt del: upt_Suc)
  then show ?thesis
    by (simp add: unsigned_value_def o_def del: upt_Suc cong: if_cong)
qed

lemma base2_acc_value:
  "set s \<subseteq> {CHR ''0'', CHR ''1''} \<Longrightarrow> base2_acc a s = Some (a * 2 ^ length s + unsigned_value s)"
proof (induction s arbitrary: a)
  case Nil
  then show ?case by (simp add: unsigned_value_Nil)
next
  case (Cons c s)
  then show ?case by (auto simp: unsigned_value_Cons algebra_simps)
qed

lemma int_base2_value:
  "set s \<subseteq> {CHR ''0'', CHR ''1''} \<Longrightarrow> s \<noteq> [] \<Longrightarrow> int_base2 s = Some (unsigned_value s)"
  by (simp add: int_base2_def base2_acc_value)

lemma render_code_placeholder: "render_code v = placeholder_or_char v"
  by (simp add: render_code_def placeholder_or_char_def)

lemma binary_to_text_loop_groups:
  "set s \<subseteq> {CHR ''0'', CHR ''1''} \<Longrightarrow>
   binary_to_text_loop s i t =
     Inr (t @ concat (map (\<lambda>g. placeholder_or_char (unsigned_value g)) (groups_of_8 (drop i s))))"
proof (induction s i t rule: binary_to_text_loop.induct)
  case (1 s i t)
  show ?case
  proof (cases "i < length s")
    case False
    then show ?thesis
      by (subst binary_to_text_loop.simps, subst groups_of_8.simps) simp
  next
    case True
    note lt = this
    show ?thesis
    proof (cases "length (take 8 (drop i s)) = 8")
      case True
      let ?byte = "take 8 (drop i s)"
      have sub: "set ?byte \<subseteq> {CHR ''0'', CHR ''1''}"
        using "1.prems" by (meson in_set_dropD in_set_takeD subset_iff)
      have ne: "?byte \<noteq> []" using True by auto
      have v: "int_base2 ?byte = Some (unsigned_value ?byte)"
        by (rule int_base2_value[OF sub ne])
      have ih: "binary_to_text_loop s (i + 8) (t @ render_code (unsigned_value ?byte)) =
                Inr ((t @ render_code (unsigned_value ?byte)) @
                  concat (map (\<lambda>g. placeholder_or_char (unsigned_value g)) (groups_of_8 (drop (i + 8) s))))"
        by (rule "1.IH"(1)[OF lt refl True v "1.prems"])
      have len: "\<not> length (drop i s) < 8" using True by simp
      have g: "groups_of_8 (drop i s) = ?byte # groups_of_8 (drop (i + 8) s)"
        using len by (subst groups_of_8.simps) (simp add: add.commute)
      have step: "binary_to_text_loop s i t =
                  binary_to_text_loop s (i + 8) (t @ render_code (unsigned_value ?byte))"
        by (subst binary_to_text_loop.simps) (simp only: lt True v Let_def if_True option.case refl)
      show ?thesis
        unfolding step ih g by (simp add: render_code_placeholder)
    next
      case False
      have ih: "binary_to_text_loop s (i + 8) t =
                Inr (t @ concat (map (\<lambda>g. placeholder_or_char (unsigned_value g)) (groups_of_8 (drop (i + 8) s))))"
        by (rule "1.IH"(2)[OF lt refl False "1.prems"])
      from False lt have short: "length (drop i s) < 8" by simp
      then have "length s \<le> i + 8" by simp
      then have e: "groups_of_8 (drop (i + 8) s) = []"
        by (subst groups_of_8.simps) simp
      have e2: "groups_of_8 (drop i s) = []"
        using short by (subst groups_of_8.simps) simp
      have step: "binary_to_text_loop s i t = binary_to_text_loop s (i + 8) t"
        by (subst binary_to_text_loop.simps) (simp only: lt False Let_def if_True if_False refl)
      show ?thesis
        unfolding step ih e e2 by simp
    qed
  qed
qed

lemma next_multiple_of_8:
  fixes n :: nat
  assumes "n mod 8 \<noteq> 0"
  shows "(n + 7) div 8 * 8 - n = (8 - n mod 8) mod 8"
proof -
  define q r where "q = n div 8" and "r = n mod 8"
  have n: "n = 8 * q + r" and r: "0 < r" "r < 8"
    using assms by (simp_all add: q_def r_def)
  have "n + 7 = 8 * (q + 1) + (r - 1)" using n r by simp
  then have "(n + 7) div 8 = q + 1" using r by simp
  then have "(n + 7) div 8 * 8 - n = 8 - r" using n by simp
  moreover have "(8 - r) mod 8 = 8 - r" using r by simp
  ultimately show ?thesis by (simp add: r_def)
qed

lemma padded_eq:
  "(if length b mod 8 \<noteq> 0 then ljust b ((length b + 7) div 8 * 8) CHR ''0'' else b) = pad_to_bytes b"
proof (cases "length b mod 8 = 0")
  case True
  then show ?thesis by (simp add: pad_to_bytes_def)
next
  case False
  from next_multiple_of_8[OF this] show ?thesis
    using False by (simp add: ljust_def pad_to_bytes_def)
qed

text \<open>
  C9. On a bit string, \<^verbatim>\<open>binary_to_text\<close> returns the text of the specification's
  decoder: the string is padded with \<^verbatim>\<open>'0'\<close> to a multiple of 8 and cut into 8-bit
  groups, each read as an unsigned integer; a value in [32,126] appends its ASCII character,
  any other value the token \<^verbatim>\<open>[value]\<close>. The byte 7 gives \<^verbatim>\<open>[7]\<close>.
\<close>

theorem binary_to_text_groups:
  assumes "set bits \<subseteq> {CHR ''0'', CHR ''1''}"
  shows "binary_to_text bits = Inr (spec_text_decode bits)
         \<and> binary_to_text ''00000111'' = Inr ''[7]''"
proof -
  have "set (pad_to_bytes bits) \<subseteq> {CHR ''0'', CHR ''1''}"
    using assms by (auto simp: pad_to_bytes_def)
  from binary_to_text_loop_groups[OF this, of 0 "[]"]
  have "binary_to_text bits = Inr (spec_text_decode bits)"
    unfolding binary_to_text_def Let_def padded_eq spec_text_decode_def by simp
  moreover have "binary_to_text ''00000111'' = Inr ''[7]''"
    by code_simp
  ultimately show ?thesis by simp
qed

theorem binary_to_text_groups_witness:
  "set ''0100100000000111001'' \<subseteq> {CHR ''0'', CHR ''1''}
   \<and> binary_to_text ''0100100000000111001'' = Inr (spec_text_decode ''0100100000000111001'')"
proof -
  have h: "set ''0100100000000111001'' \<subseteq> {CHR ''0'', CHR ''1''}"
    by simp
  from binary_to_text_groups[OF h] have "binary_to_text ''0100100000000111001'' = Inr (spec_text_decode ''0100100000000111001'')"
    by (rule conjunct1)
  with h show ?thesis by (rule conjI)
qed

subsection \<open>Double-precision products\<close>

lemma binade_up_eq:
  fixes k :: nat
  shows "2 ^ k \<le> a \<Longrightarrow> a < 2 ^ (k + 1) \<or> e + int k = 1023 \<Longrightarrow> e + int k \<le> 1023 \<Longrightarrow>
         binade_up a e = e + int k"
proof (induction k arbitrary: a e)
  case 0
  then have "\<not> (2 \<le> a \<and> e < 1023)" by auto
  then show ?case by (subst binade_up.simps) auto
next
  case (Suc k)
  have "(2::real) ^ 1 \<le> 2 ^ Suc k" by (rule power_increasing) simp_all
  then have "(2::real) \<le> 2 ^ Suc k" unfolding power_one_right .
  with Suc.prems(1) have a2: "2 \<le> a" by linarith
  from Suc.prems(3) have e: "e < 1023" by simp
  have "binade_up a e = binade_up (a / 2) (e + 1)"
    using a2 e by (subst binade_up.simps) simp
  also have "\<dots> = (e + 1) + int k"
  proof (rule Suc.IH)
    show "2 ^ k \<le> a / 2" using Suc.prems(1) by simp
    show "a / 2 < 2 ^ (k + 1) \<or> e + 1 + int k = 1023" using Suc.prems(2) by auto
    show "e + 1 + int k \<le> 1023" using Suc.prems(3) by simp
  qed
  finally show ?case by simp
qed

lemma binade_down_eq:
  fixes k :: nat
  shows "1 \<le> a * 2 ^ k \<Longrightarrow> a * 2 ^ k < 2 \<Longrightarrow> - 1022 \<le> e - int k \<Longrightarrow>
         binade_down a e = e - int k"
proof (induction k arbitrary: a e)
  case 0
  then have "\<not> (a < 1 \<and> - 1022 < e)" by simp
  then show ?case by (subst binade_down.simps) auto
next
  case (Suc k)
  have "a * 2 \<le> a * 2 ^ Suc k"
  proof -
    have "0 < a * 2 ^ Suc k" using Suc.prems(1) by linarith
    then have "0 \<le> a" by (simp add: zero_less_mult_iff)
    moreover have "(2::real) ^ 1 \<le> 2 ^ Suc k" by (rule power_increasing) simp_all
    ultimately show ?thesis by (intro mult_left_mono) simp_all
  qed
  with Suc.prems(2) have a1: "a < 1" by simp
  from Suc.prems(3) have e: "- 1022 < e" by simp
  have "binade_down a e = binade_down (a * 2) (e - 1)"
    using a1 e by (subst binade_down.simps) simp
  also have "\<dots> = (e - 1) - int k"
  proof (rule Suc.IH)
    show "1 \<le> a * 2 * 2 ^ k" using Suc.prems(1) by (simp add: mult.assoc)
    show "a * 2 * 2 ^ k < 2" using Suc.prems(2) by (simp add: mult.assoc)
    show "- 1022 \<le> e - 1 - int k" using Suc.prems(3) by simp
  qed
  finally show ?case by simp
qed

text \<open>
  How \<open>round_double\<close> evaluates: for \<open>2 ^ k \<le> \<bar>x\<bar> < 2 ^ (k + 1)\<close> the spacing is
  \<open>2 ^ (k - 52)\<close>, and for \<open>2 ^ (- k) \<le> \<bar>x\<bar> < 2 ^ (1 - k)\<close> it is \<open>2 ^ (- k - 52)\<close>.
\<close>

lemma round_double_large:
  fixes k :: nat
  assumes "2 ^ k \<le> \<bar>x\<bar>" and "\<bar>x\<bar> < 2 ^ (k + 1) \<or> k = 1023" and "k \<le> 1023"
  shows "round_double x =
           real_of_int (round_half_even (x / pow2 (int k - 52))) * pow2 (int k - 52)"
proof -
  have "(1::real) \<le> 2 ^ k" by simp
  with assms(1) have one: "1 \<le> \<bar>x\<bar>" by linarith
  then have nz: "x \<noteq> 0" by auto
  have "binade_up \<bar>x\<bar> 0 = 0 + int k"
    using assms by (intro binade_up_eq) auto
  then have "binade x = int k" using one by (simp add: binade_def)
  then show ?thesis using nz by (simp add: round_double_def Let_def)
qed

lemma round_double_small:
  fixes k :: nat
  assumes "1 \<le> \<bar>x\<bar> * 2 ^ k" and "\<bar>x\<bar> * 2 ^ k < 2" and "0 < k" and "k \<le> 1022"
  shows "round_double x =
           real_of_int (round_half_even (x / pow2 (- int k - 52))) * pow2 (- int k - 52)"
proof -
  have "\<bar>x\<bar> * 2 \<le> \<bar>x\<bar> * 2 ^ k"
  proof -
    have "(2::real) ^ 1 \<le> 2 ^ k" using assms(3) by (intro power_increasing) simp_all
    then show ?thesis by (intro mult_left_mono) simp_all
  qed
  with assms(2) have lt: "\<bar>x\<bar> < 1" by simp
  from assms(1) have nz: "x \<noteq> 0" by auto
  have "binade_down \<bar>x\<bar> 0 = 0 - int k"
    using assms by (intro binade_down_eq) auto
  then have "binade x = - int k" using lt by (simp add: binade_def)
  then show ?thesis using nz by (simp add: round_double_def Let_def)
qed

text \<open>
  The result is a multiple of the spacing by definition, and it is nearest: it differs
  from \<open>x\<close> by at most half the spacing.
\<close>

lemma round_half_even_near: "\<bar>real_of_int (round_half_even x) - x\<bar> \<le> 1 / 2"
proof -
  define f where "f = \<lfloor>x\<rfloor>"
  define r where "r = x - real_of_int f"
  have r0: "0 \<le> r" and r1: "r < 1" unfolding r_def f_def by linarith+
  have x: "x = real_of_int f + r" unfolding r_def by simp
  have "round_half_even x = (if r < 1 / 2 then f else if 1 / 2 < r then f + 1
                              else if even f then f else f + 1)"
    unfolding round_half_even_def Let_def f_def[symmetric] r_def[symmetric] ..
  then consider "round_half_even x = f" "r \<le> 1 / 2" | "round_half_even x = f + 1" "1 / 2 \<le> r"
    by (cases "r < 1 / 2"; cases "1 / 2 < r"; cases "even f") auto
  then show ?thesis
  proof cases
    case 1
    then show ?thesis unfolding x using r0 by simp
  next
    case 2
    then show ?thesis unfolding x using r1 by simp
  qed
qed

lemma scaled_rounding_near:
  fixes u :: real
  assumes "0 < u"
  shows "\<bar>real_of_int (round_half_even (x / u)) * u - x\<bar> \<le> u / 2"
proof -
  have "real_of_int (round_half_even (x / u)) * u - x = (real_of_int (round_half_even (x / u)) - x / u) * u"
    using assms by (simp add: field_simps)
  then have "\<bar>real_of_int (round_half_even (x / u)) * u - x\<bar> =
             \<bar>real_of_int (round_half_even (x / u)) - x / u\<bar> * u"
    using assms by (simp add: abs_mult)
  also have "\<dots> \<le> 1 / 2 * u"
    using assms by (intro mult_right_mono round_half_even_near) simp
  finally show ?thesis by simp
qed

lemma pow2_pos: "0 < pow2 e"
  by (simp add: pow2_def)

lemma round_double_large_near:
  fixes k :: nat
  assumes "2 ^ k \<le> \<bar>x\<bar>" and "\<bar>x\<bar> < 2 ^ (k + 1) \<or> k = 1023" and "k \<le> 1023"
  shows "\<bar>round_double x - x\<bar> \<le> pow2 (int k - 52) / 2"
  unfolding round_double_large[OF assms] by (rule scaled_rounding_near[OF pow2_pos])

lemma round_double_small_near:
  fixes k :: nat
  assumes "1 \<le> \<bar>x\<bar> * 2 ^ k" and "\<bar>x\<bar> * 2 ^ k < 2" and "0 < k" and "k \<le> 1022"
  shows "\<bar>round_double x - x\<bar> \<le> pow2 (- int k - 52) / 2"
  unfolding round_double_small[OF assms] by (rule scaled_rounding_near[OF pow2_pos])

lemma double_max_large: "2 ^ 53 \<le> double_max"
proof -
  have "(2::real) ^ 53 * 1 \<le> 2 ^ 53 * 2 ^ 970" by (intro mult_left_mono) simp_all
  also have "\<dots> \<le> double_max" by (simp add: double_max_def)
  finally show ?thesis by simp
qed

lemma float_mul_eval:
  "round_double x = a \<Longrightarrow> round_double y = b \<Longrightarrow> round_double (a * b) = p \<Longrightarrow> float_mul x y = p"
  by (simp add: float_mul_def)

lemma int_of_product_eval:
  assumes "round_double (real_of_int n) = a" and "float_mul (real_of_int n) x = p"
    and "\<bar>a\<bar> \<le> double_max" and "\<bar>p\<bar> \<le> double_max"
  shows "int_of_product n x = Inr (py_int p)"
  using assms by (simp add: int_of_product_def Let_def)

text \<open>The doubles and the products that the statements below need.\<close>

lemma round_double_44100: "round_double 44100 = 44100"
  using round_double_large[of 15 44100] by (simp add: pow2_def round_half_even_def)

lemma round_double_2000: "round_double 2000 = 2000"
  using round_double_large[of 10 2000] by (simp add: pow2_def round_half_even_def)

lemma round_double_7: "round_double 7 = 7"
  using round_double_large[of 2 7] by (simp add: pow2_def round_half_even_def)

lemma round_double_3: "round_double 3 = 3"
  using round_double_large[of 1 3] by (simp add: pow2_def round_half_even_def)

lemma round_double_top: "round_double (2 ^ 1024) = 2 ^ 1024"
  using round_double_large[of 1023 "2 ^ 1024"] by (simp add: pow2_def round_half_even_def)

lemma round_double_tenth: "round_double (1 / 10) = 3602879701896397 / 2 ^ 55"
  using round_double_small[of "1 / 10" 4] by (simp add: pow2_def round_half_even_def)

lemma round_double_fifth: "round_double (2 / 10) = 3602879701896397 / 2 ^ 54"
  using round_double_small[of "2 / 10" 3] by (simp add: pow2_def round_half_even_def)

lemma round_double_500th: "round_double (1 / 500) = 1152921504606847 / 2 ^ 59"
  using round_double_small[of "1 / 500" 9] by (simp add: pow2_def round_half_even_def)

lemma round_double_quarter: "round_double (1 / 4) = 1 / 4"
  using round_double_small[of "1 / 4" 2] by (simp add: pow2_def round_half_even_def)

lemma round_double_minus_1: "round_double (- 1) = - 1"
  using round_double_large[of 0 "- 1"] by (simp add: pow2_def round_half_even_def)

lemma round_double_minus_100000th:
  "round_double (- 1 / 100000) = - 5902958103587057 / 2 ^ 69"
  using round_double_small[of "- 1 / 100000" 17] by (simp add: pow2_def round_half_even_def)

lemma round_double_35_100: "round_double (35 / 100) = 3152519739159347 / 2 ^ 53"
  using round_double_small[of "35 / 100" 2] by (simp add: pow2_def round_half_even_def)

lemma round_double_3_100: "round_double (3 / 100) = 1080863910568919 / 2 ^ 55"
  using round_double_small[of "3 / 100" 6] by (simp add: pow2_def round_half_even_def)

lemma round_double_minus_third:
  "round_double (- 3333333333333333 / 10000000000000000) = - 6004799503160661 / 2 ^ 54"
  using round_double_small[of "- 3333333333333333 / 10000000000000000" 2]
  by (simp add: pow2_def round_half_even_def)

lemma float_mul_44100_tenth: "float_mul 44100 (1 / 10) = 4410"
proof (rule float_mul_eval[OF round_double_44100 round_double_tenth])
  show "round_double (44100 * (3602879701896397 / 2 ^ 55)) = 4410"
    using round_double_large[of 12 "44100 * (3602879701896397 / 2 ^ 55)"]
    by (simp add: pow2_def round_half_even_def)
qed

lemma float_mul_44100_fifth: "float_mul 44100 (2 / 10) = 8820"
proof (rule float_mul_eval[OF round_double_44100 round_double_fifth])
  show "round_double (44100 * (3602879701896397 / 2 ^ 54)) = 8820"
    using round_double_large[of 13 "44100 * (3602879701896397 / 2 ^ 54)"]
    by (simp add: pow2_def round_half_even_def)
qed

lemma float_mul_2000_500th: "float_mul 2000 (1 / 500) = 4"
proof (rule float_mul_eval[OF round_double_2000 round_double_500th])
  show "round_double (2000 * (1152921504606847 / 2 ^ 59)) = 4"
    using round_double_large[of 2 "2000 * (1152921504606847 / 2 ^ 59)"]
    by (simp add: pow2_def round_half_even_def)
qed

lemma float_mul_7_quarter: "float_mul 7 (1 / 4) = 7 / 4"
proof (rule float_mul_eval[OF round_double_7 round_double_quarter])
  show "round_double (7 * (1 / 4)) = 7 / 4"
    using round_double_large[of 0 "7 * (1 / 4)"]
    by (simp add: pow2_def round_half_even_def)
qed

lemma float_mul_44100_minus_1: "float_mul 44100 (- 1) = - 44100"
proof (rule float_mul_eval[OF round_double_44100 round_double_minus_1])
  show "round_double (44100 * - 1) = - 44100"
    using round_double_large[of 15 "44100 * - 1"]
    by (simp add: pow2_def round_half_even_def)
qed

lemma float_mul_44100_minus_100000th:
  "float_mul 44100 (- 1 / 100000) = - 1986087435670389 / 2 ^ 52"
proof (rule float_mul_eval[OF round_double_44100 round_double_minus_100000th])
  show "round_double (44100 * (- 5902958103587057 / 2 ^ 69)) = - 1986087435670389 / 2 ^ 52"
    using round_double_small[of "44100 * (- 5902958103587057 / 2 ^ 69)" 2]
    by (simp add: pow2_def round_half_even_def)
qed

lemma float_mul_44100_35_100: "float_mul 44100 (35 / 100) = 8485480987361279 / 2 ^ 39"
proof (rule float_mul_eval[OF round_double_44100 round_double_35_100])
  show "round_double (44100 * (3152519739159347 / 2 ^ 53)) = 8485480987361279 / 2 ^ 39"
    using round_double_large[of 13 "44100 * (3152519739159347 / 2 ^ 53)"]
    by (simp add: pow2_def round_half_even_def)
qed

lemma float_mul_44100_3_100: "float_mul 44100 (3 / 100) = 1323"
proof (rule float_mul_eval[OF round_double_44100 round_double_3_100])
  show "round_double (44100 * (1080863910568919 / 2 ^ 55)) = 1323"
    using round_double_large[of 10 "44100 * (1080863910568919 / 2 ^ 55)"]
    by (simp add: pow2_def round_half_even_def)
qed

lemma float_mul_3_minus_third:
  "float_mul 3 (- 3333333333333333 / 10000000000000000) = - 1"
proof (rule float_mul_eval[OF round_double_3 round_double_minus_third])
  show "round_double (3 * (- 6004799503160661 / 2 ^ 54)) = - 1"
    using round_double_small[of "3 * (- 6004799503160661 / 2 ^ 54)" 1]
    by (simp add: pow2_def round_half_even_def)
qed

lemma int_of_product_default_tenth:
  "int_of_product (sample_rate default_config) (1 / 10) = Inr 4410"
proof -
  have r: "real_of_int (sample_rate default_config) = 44100" by (simp add: default_config_def)
  have "int_of_product (sample_rate default_config) (1 / 10) = Inr (py_int 4410)"
  proof (rule int_of_product_eval)
    show "round_double (real_of_int (sample_rate default_config)) = 44100"
      unfolding r by (rule round_double_44100)
    show "float_mul (real_of_int (sample_rate default_config)) (1 / 10) = 4410"
      unfolding r by (rule float_mul_44100_tenth)
    show "\<bar>44100 :: real\<bar> \<le> double_max" using double_max_large by simp
    show "\<bar>4410 :: real\<bar> \<le> double_max" using double_max_large by simp
  qed
  then show ?thesis by (simp add: py_int_def)
qed

lemma int_of_product_default_fifth:
  "int_of_product (sample_rate default_config) (2 / 10) = Inr 8820"
proof -
  have r: "real_of_int (sample_rate default_config) = 44100" by (simp add: default_config_def)
  have "int_of_product (sample_rate default_config) (2 / 10) = Inr (py_int 8820)"
  proof (rule int_of_product_eval)
    show "round_double (real_of_int (sample_rate default_config)) = 44100"
      unfolding r by (rule round_double_44100)
    show "float_mul (real_of_int (sample_rate default_config)) (2 / 10) = 8820"
      unfolding r by (rule float_mul_44100_fifth)
    show "\<bar>44100 :: real\<bar> \<le> double_max" using double_max_large by simp
    show "\<bar>8820 :: real\<bar> \<le> double_max" using double_max_large by simp
  qed
  then show ?thesis by (simp add: py_int_def)
qed

lemma int_of_product_default_bit:
  "int_of_product (sample_rate default_config) (bit_duration default_config) = Inr 4410"
proof -
  have "bit_duration default_config = 1 / 10" by (simp add: default_config_def)
  then show ?thesis by (simp only: int_of_product_default_tenth)
qed

subsection \<open>The tone generator\<close>

lemma length_linspace: "length (linspace a b n e) = n"
  by (simp add: linspace_def)

lemma length_scale_head:
  "length ramp = k \<Longrightarrow> k \<le> length tone \<Longrightarrow> length (scale_head k ramp tone) = length tone"
  by (simp add: scale_head_def)

lemma length_scale_tail:
  "length ramp = k \<Longrightarrow> k \<le> length tone \<Longrightarrow> length (scale_tail k ramp tone) = length tone"
  by (simp add: scale_tail_def)

lemma generate_tone_overflow:
  "int_of_product (sample_rate cfg) duration = Inl e \<Longrightarrow>
   generate_tone cfg frequency duration = Inl e"
  by (simp add: generate_tone_def)

lemma generate_tone_negative:
  "int_of_product (sample_rate cfg) duration = Inr samples \<Longrightarrow> samples < 0 \<Longrightarrow>
   generate_tone cfg frequency duration = Inl ValueError"
  by (simp add: generate_tone_def)

lemma generate_tone_length:
  assumes cnt: "int_of_product (sample_rate cfg) duration = Inr samples" and "0 \<le> samples"
  shows "\<exists>tone. generate_tone cfg frequency duration = Inr tone \<and> int (length tone) = samples"
proof -
  define n where "n = nat samples"
  define tone where "tone = map (\<lambda>x. sin (2 * pi * frequency * x)) (linspace 0 duration n False)"
  define k where "k = min 100 (n div 10)"
  have len: "length tone = n" by (simp add: tone_def length_linspace)
  have "k \<le> n div 10" by (simp add: k_def)
  also have "n div 10 \<le> n" by simp
  finally have k: "k \<le> n" .
  have l1: "length (scale_head k (linspace 0 1 k True) tone) = n"
    using len k by (simp add: length_scale_head length_linspace)
  have l2: "length (scale_tail k (linspace 1 0 k True) (scale_head k (linspace 0 1 k True) tone)) = n"
    using l1 k by (simp add: length_scale_tail length_linspace)
  have "generate_tone cfg frequency duration =
          Inr (if 0 < k then scale_tail k (linspace 1 0 k True) (scale_head k (linspace 0 1 k True) tone)
               else tone)"
    using assms(2) by (simp add: generate_tone_def cnt Let_def n_def tone_def k_def)
  moreover have "int n = samples"
    using assms(2) by (simp add: n_def)
  ultimately show ?thesis using len l2 by auto
qed

lemma py_int_small_negative: "- 1 < x \<Longrightarrow> x < 0 \<Longrightarrow> py_int x = 0"
  by (simp add: py_int_def ceiling_eq_iff)

lemma py_int_negative: "x \<le> - 1 \<Longrightarrow> py_int x < 0"
  by (simp add: py_int_def ceiling_less_iff)

lemma py_int_nonneg: "- 1 < x \<Longrightarrow> 0 \<le> py_int x"
  by (simp add: py_int_def le_ceiling_iff)

text \<open>
  C4 (as the code has it). For every frequency and duration the sample count is
  \<^verbatim>\<open>int(sample_rate * duration)\<close>: the double-precision product, rounded to nearest,
  truncated towards zero, whenever that is not negative. The function has no check of the
  duration: when the product is at most \<open>-1\<close> the negative count makes \<^verbatim>\<open>np.linspace\<close>
  raise \<^verbatim>\<open>ValueError\<close>, and when it lies strictly between \<open>-1\<close> and 0 the result is the
  empty signal. When the rate or the product is beyond the largest double, the conversion
  to an integer raises \<^verbatim>\<open>OverflowError\<close>.
\<close>

theorem generate_tone_sample_count:
  "(double_max < \<bar>round_double (real_of_int (sample_rate cfg))\<bar>
      \<or> double_max < \<bar>float_mul (real_of_int (sample_rate cfg)) duration\<bar> \<longrightarrow>
      generate_tone cfg frequency duration = Inl OverflowError)
   \<and> (\<bar>round_double (real_of_int (sample_rate cfg))\<bar> \<le> double_max
      \<and> \<bar>float_mul (real_of_int (sample_rate cfg)) duration\<bar> \<le> double_max \<longrightarrow>
      (float_mul (real_of_int (sample_rate cfg)) duration \<le> - 1 \<longrightarrow>
         generate_tone cfg frequency duration = Inl ValueError)
      \<and> (- 1 < float_mul (real_of_int (sample_rate cfg)) duration \<longrightarrow>
         (\<exists>tone. generate_tone cfg frequency duration = Inr tone
            \<and> int (length tone) = py_int (float_mul (real_of_int (sample_rate cfg)) duration)))
      \<and> (- 1 < float_mul (real_of_int (sample_rate cfg)) duration
           \<and> float_mul (real_of_int (sample_rate cfg)) duration < 0 \<longrightarrow>
         generate_tone cfg frequency duration = Inr []))"
proof -
  let ?r = "round_double (real_of_int (sample_rate cfg))"
  let ?x = "float_mul (real_of_int (sample_rate cfg)) duration"
  have o: "double_max < \<bar>?r\<bar> \<or> double_max < \<bar>?x\<bar> \<longrightarrow>
           generate_tone cfg frequency duration = Inl OverflowError"
  proof
    assume "double_max < \<bar>?r\<bar> \<or> double_max < \<bar>?x\<bar>"
    then have "int_of_product (sample_rate cfg) duration = Inl OverflowError"
      by (auto simp: int_of_product_def Let_def)
    then show "generate_tone cfg frequency duration = Inl OverflowError"
      by (rule generate_tone_overflow)
  qed
  have f: "(generate_tone cfg frequency duration = Inl ValueError \<or> \<not> ?x \<le> - 1)
           \<and> (- 1 < ?x \<longrightarrow> (\<exists>tone. generate_tone cfg frequency duration = Inr tone
                  \<and> int (length tone) = py_int ?x))
           \<and> (- 1 < ?x \<and> ?x < 0 \<longrightarrow> generate_tone cfg frequency duration = Inr [])"
    if ok: "\<bar>?r\<bar> \<le> double_max \<and> \<bar>?x\<bar> \<le> double_max"
  proof -
    from ok have cnt: "int_of_product (sample_rate cfg) duration = Inr (py_int ?x)"
      by (simp add: int_of_product_def Let_def)
    have a: "generate_tone cfg frequency duration = Inl ValueError \<or> \<not> ?x \<le> - 1"
      using py_int_negative generate_tone_negative[OF cnt] by blast
    have b: "- 1 < ?x \<longrightarrow> (\<exists>tone. generate_tone cfg frequency duration = Inr tone
           \<and> int (length tone) = py_int ?x)"
      using py_int_nonneg generate_tone_length[OF cnt] by blast
    have c: "- 1 < ?x \<and> ?x < 0 \<longrightarrow> generate_tone cfg frequency duration = Inr []"
    proof (intro impI)
      assume h: "- 1 < ?x \<and> ?x < 0"
      then have z: "py_int ?x = 0" by (simp add: py_int_small_negative)
      from h b obtain tone where "generate_tone cfg frequency duration = Inr tone"
        and "int (length tone) = py_int ?x" by blast
      with z show "generate_tone cfg frequency duration = Inr []" by simp
    qed
    from a b c show ?thesis by blast
  qed
  from o f show ?thesis by blast
qed

text \<open>
  Instances: the start tone of 0.2 s has 8820 samples; at the durations 0.35 and 0.03 the
  rounded product decides the count (15434, where the exact product of 44100 and 35/100 is
  15435, and 1323, where the exact product of 44100 and the double 0.03 is below 1323); at
  rate 3 and duration \<open>-0.3333333333333333\<close> the product rounds to \<open>-1\<close> and the call
  raises; a rate of \<open>2 ^ 1024\<close> does not convert to a float.
\<close>

theorem generate_tone_sample_count_witness:
  "float_mul (real_of_int (sample_rate default_config)) (2 / 10) = 8820
   \<and> (\<exists>tone. generate_tone default_config 500 (2 / 10) = Inr tone \<and> int (length tone) = 8820)
   \<and> float_mul (real_of_int (sample_rate default_config)) (35 / 100) = 15435 - 1 / 2 ^ 39
   \<and> (\<exists>tone. generate_tone default_config 500 (35 / 100) = Inr tone \<and> int (length tone) = 15434)
   \<and> float_mul (real_of_int (sample_rate default_config)) (3 / 100) = 1323
   \<and> (\<exists>tone. generate_tone default_config 500 (3 / 100) = Inr tone \<and> int (length tone) = 1323)
   \<and> float_mul (real_of_int (sample_rate default_config)) (- 1) = - 44100
   \<and> generate_tone default_config 500 (- 1) = Inl ValueError
   \<and> float_mul (real_of_int (sample_rate \<lparr>sample_rate = 3, bit_duration = 1 / 10\<rparr>))
         (- 3333333333333333 / 10000000000000000) = - 1
   \<and> generate_tone \<lparr>sample_rate = 3, bit_duration = 1 / 10\<rparr> 500
         (- 3333333333333333 / 10000000000000000) = Inl ValueError
   \<and> double_max < \<bar>round_double (real_of_int (sample_rate \<lparr>sample_rate = 2 ^ 1024, bit_duration = 1 / 10\<rparr>))\<bar>
   \<and> generate_tone \<lparr>sample_rate = 2 ^ 1024, bit_duration = 1 / 10\<rparr> 500 (1 / 10) = Inl OverflowError"
proof -
  let ?d = default_config
  let ?c3 = "\<lparr>sample_rate = 3, bit_duration = 1 / 10\<rparr>"
  let ?ct = "\<lparr>sample_rate = 2 ^ 1024, bit_duration = 1 / 10\<rparr>"
  have r: "real_of_int (sample_rate ?d) = 44100" by (simp add: default_config_def)
  have r3: "real_of_int (sample_rate ?c3) = 3" by simp
  have rt: "real_of_int (sample_rate ?ct) = 2 ^ 1024" by (simp only: config.simps of_int_power of_int_numeral)
  have big: "(2::real) ^ 53 \<le> double_max" by (rule double_max_large)
  have okr: "\<bar>round_double (real_of_int (sample_rate ?d))\<bar> \<le> double_max"
    unfolding r round_double_44100 using big by simp
  have okr3: "\<bar>round_double (real_of_int (sample_rate ?c3))\<bar> \<le> double_max"
    unfolding r3 round_double_3 using big by simp
  have p1: "float_mul (real_of_int (sample_rate ?d)) (2 / 10) = 8820"
    unfolding r by (rule float_mul_44100_fifth)
  have p2: "float_mul (real_of_int (sample_rate ?d)) (35 / 100) = 15435 - 1 / 2 ^ 39"
    unfolding r float_mul_44100_35_100 by simp
  have p3: "float_mul (real_of_int (sample_rate ?d)) (3 / 100) = 1323"
    unfolding r by (rule float_mul_44100_3_100)
  have p4: "float_mul (real_of_int (sample_rate ?d)) (- 1) = - 44100"
    unfolding r by (rule float_mul_44100_minus_1)
  have p5: "float_mul (real_of_int (sample_rate ?c3)) (- 3333333333333333 / 10000000000000000) = - 1"
    unfolding r3 by (rule float_mul_3_minus_third)
  have p6: "double_max < \<bar>round_double (real_of_int (sample_rate ?ct))\<bar>"
  proof -
    have "double_max < \<bar>(2::real) ^ 1024\<bar>" by (simp add: double_max_def)
    then show ?thesis unfolding rt round_double_top .
  qed
  have ok1: "\<bar>float_mul (real_of_int (sample_rate ?d)) (2 / 10)\<bar> \<le> double_max"
    unfolding p1 using big by simp
  have ok2: "\<bar>float_mul (real_of_int (sample_rate ?d)) (35 / 100)\<bar> \<le> double_max"
    unfolding p2 using big by simp
  have ok3: "\<bar>float_mul (real_of_int (sample_rate ?d)) (3 / 100)\<bar> \<le> double_max"
    unfolding p3 using big by simp
  have ok4: "\<bar>float_mul (real_of_int (sample_rate ?d)) (- 1)\<bar> \<le> double_max"
    unfolding p4 using big by simp
  have ok5: "\<bar>float_mul (real_of_int (sample_rate ?c3)) (- 3333333333333333 / 10000000000000000)\<bar> \<le> double_max"
    unfolding p5 using big by simp
  have i1: "py_int (8820 :: real) = 8820" by (simp add: py_int_def)
  have i2: "py_int (15435 - 1 / 2 ^ 39 :: real) = 15434" by (simp add: py_int_def)
  have i3: "py_int (1323 :: real) = 1323" by (simp add: py_int_def)
  from generate_tone_sample_count[where cfg = ?d and duration = "2 / 10" and frequency = 500] okr ok1
  have "- 1 < float_mul (real_of_int (sample_rate ?d)) (2 / 10) \<longrightarrow>
        (\<exists>tone. generate_tone ?d 500 (2 / 10) = Inr tone
           \<and> int (length tone) = py_int (float_mul (real_of_int (sample_rate ?d)) (2 / 10)))"
    by blast
  then have c1: "\<exists>tone. generate_tone ?d 500 (2 / 10) = Inr tone \<and> int (length tone) = 8820"
    unfolding p1 i1 by simp
  from generate_tone_sample_count[where cfg = ?d and duration = "35 / 100" and frequency = 500] okr ok2
  have "- 1 < float_mul (real_of_int (sample_rate ?d)) (35 / 100) \<longrightarrow>
        (\<exists>tone. generate_tone ?d 500 (35 / 100) = Inr tone
           \<and> int (length tone) = py_int (float_mul (real_of_int (sample_rate ?d)) (35 / 100)))"
    by blast
  then have c2: "\<exists>tone. generate_tone ?d 500 (35 / 100) = Inr tone \<and> int (length tone) = 15434"
    unfolding p2 i2 by simp
  from generate_tone_sample_count[where cfg = ?d and duration = "3 / 100" and frequency = 500] okr ok3
  have "- 1 < float_mul (real_of_int (sample_rate ?d)) (3 / 100) \<longrightarrow>
        (\<exists>tone. generate_tone ?d 500 (3 / 100) = Inr tone
           \<and> int (length tone) = py_int (float_mul (real_of_int (sample_rate ?d)) (3 / 100)))"
    by blast
  then have c3: "\<exists>tone. generate_tone ?d 500 (3 / 100) = Inr tone \<and> int (length tone) = 1323"
    unfolding p3 i3 by simp
  from generate_tone_sample_count[where cfg = ?d and duration = "- 1" and frequency = 500] okr ok4
  have "float_mul (real_of_int (sample_rate ?d)) (- 1) \<le> - 1 \<longrightarrow>
        generate_tone ?d 500 (- 1) = Inl ValueError"
    by blast
  then have c4: "generate_tone ?d 500 (- 1) = Inl ValueError"
    unfolding p4 by simp
  from generate_tone_sample_count[where cfg = ?c3
      and duration = "- 3333333333333333 / 10000000000000000" and frequency = 500] okr3 ok5
  have "float_mul (real_of_int (sample_rate ?c3)) (- 3333333333333333 / 10000000000000000) \<le> - 1 \<longrightarrow>
        generate_tone ?c3 500 (- 3333333333333333 / 10000000000000000) = Inl ValueError"
    by blast
  then have c5: "generate_tone ?c3 500 (- 3333333333333333 / 10000000000000000) = Inl ValueError"
    unfolding p5 by simp
  from generate_tone_sample_count[where cfg = ?ct and duration = "1 / 10" and frequency = 500] p6
  have c6: "generate_tone ?ct 500 (1 / 10) = Inl OverflowError"
    by blast
  from p1 c1 p2 c2 p3 c3 p4 c4 p5 c5 p6 c6 show ?thesis by (intro conjI)
qed

text \<open>
  C4 as stated fails twice. At rate 7 and duration 0.25 the product is 1.75: the code
  produces one sample, rounding gives two. At rate 44100 and duration \<open>-0.00001\<close> the code
  returns the empty signal where the specification rejects the duration.
\<close>

theorem tone_length_counterexample:
  "generate_tone \<lparr>sample_rate = 7, bit_duration = 1 / 10\<rparr> 1000 (1 / 4) = Inr [0]
   \<and> spec_tone_length 7 (1 / 4) = Inr 2
   \<and> generate_tone default_config 1000 (- 1 / 100000) = Inr []
   \<and> spec_tone_length 44100 (- 1 / 100000) = Inl InvalidDuration"
proof -
  have big: "(2::real) ^ 53 \<le> double_max" by (rule double_max_large)
  have r: "real_of_int (sample_rate default_config) = 44100" by (simp add: default_config_def)
  have "int_of_product (sample_rate \<lparr>sample_rate = 7, bit_duration = 1 / 10\<rparr>) (1 / 4) = Inr (py_int (7 / 4))"
  proof (rule int_of_product_eval)
    show "round_double (real_of_int (sample_rate \<lparr>sample_rate = 7, bit_duration = 1 / 10\<rparr>)) = 7"
      by (simp add: round_double_7)
    show "float_mul (real_of_int (sample_rate \<lparr>sample_rate = 7, bit_duration = 1 / 10\<rparr>)) (1 / 4) = 7 / 4"
      using float_mul_7_quarter by simp
    show "\<bar>7 :: real\<bar> \<le> double_max" using big by simp
    show "\<bar>7 / 4 :: real\<bar> \<le> double_max" using big by simp
  qed
  then have n7: "int_of_product (sample_rate \<lparr>sample_rate = 7, bit_duration = 1 / 10\<rparr>) (1 / 4) = Inr 1"
    by (simp add: py_int_def)
  have "int_of_product (sample_rate default_config) (- 1 / 100000) =
          Inr (py_int (- 1986087435670389 / 2 ^ 52))"
  proof (rule int_of_product_eval)
    show "round_double (real_of_int (sample_rate default_config)) = 44100"
      unfolding r by (rule round_double_44100)
    show "float_mul (real_of_int (sample_rate default_config)) (- 1 / 100000) = - 1986087435670389 / 2 ^ 52"
      unfolding r by (rule float_mul_44100_minus_100000th)
    show "\<bar>44100 :: real\<bar> \<le> double_max" using big by simp
    show "\<bar>- 1986087435670389 / 2 ^ 52 :: real\<bar> \<le> double_max" using big by simp
  qed
  then have n0: "int_of_product (sample_rate default_config) (- 1 / 100000) = Inr 0"
    by (simp add: py_int_def)
  have a: "generate_tone \<lparr>sample_rate = 7, bit_duration = 1 / 10\<rparr> 1000 (1 / 4) = Inr [0]"
    unfolding generate_tone_def n7 by (simp add: linspace_def Let_def)
  have b: "spec_tone_length 7 (1 / 4) = Inr 2"
    by (simp add: spec_tone_length_def round_def)
  have c: "generate_tone default_config 1000 (- 1 / 100000) = Inr []"
    unfolding generate_tone_def n0 by (simp add: linspace_def Let_def)
  have d: "spec_tone_length 44100 (- 1 / 100000) = Inl InvalidDuration"
    by (simp add: spec_tone_length_def)
  from a b c d show ?thesis by simp
qed

subsection \<open>The assembled signal\<close>

lemma bit_tones_length:
  assumes cnt: "int_of_product (sample_rate cfg) (bit_duration cfg) = Inr samples"
    and "0 \<le> samples"
  shows "\<exists>tones. bit_tones cfg bits = Inr tones
           \<and> length (concat tones) = length bits * nat samples"
proof (induction bits)
  case Nil
  then show ?case by simp
next
  case (Cons b bs)
  then obtain tones where t: "bit_tones cfg bs = Inr tones"
    and l: "length (concat tones) = length bs * nat samples"
    by blast
  from generate_tone_length[OF assms]
  obtain tone where g: "generate_tone cfg (if b = CHR ''1'' then freq_1 else freq_0) (bit_duration cfg) = Inr tone"
    and gl: "int (length tone) = samples"
    by blast
  from gl have "length tone = nat samples"
    by simp
  with t l g show ?case by simp
qed

lemma default_frame_tone:
  "\<exists>tone. generate_tone default_config frequency (2 / 10) = Inr tone \<and> length tone = 8820"
proof -
  from generate_tone_length[OF int_of_product_default_fifth, of frequency]
  obtain tone where g: "generate_tone default_config frequency (2 / 10) = Inr tone"
    and l: "int (length tone) = 8820"
    by auto
  from l have "length tone = 8820" by simp
  with g show ?thesis by blast
qed

lemma default_bit_tones:
  "\<exists>tones. bit_tones default_config bits = Inr tones \<and> length (concat tones) = length bits * 4410"
  using bit_tones_length[OF int_of_product_default_bit, of bits] by simp

lemma create_signal_default_length:
  "\<exists>signal. create_signal default_config msg = Inr signal
      \<and> length signal = 26460 + 4410 * length (text_to_binary msg)"
proof -
  obtain start_tone where s: "generate_tone default_config freq_start (2 / 10) = Inr start_tone"
    and sl: "length start_tone = 8820"
    using default_frame_tone by blast
  obtain end_tone where e: "generate_tone default_config freq_end (2 / 10) = Inr end_tone"
    and el: "length end_tone = 8820"
    using default_frame_tone by blast
  obtain tones where t: "bit_tones default_config (text_to_binary msg) = Inr tones"
    and tl: "length (concat tones) = length (text_to_binary msg) * 4410"
    using default_bit_tones by blast
  let ?full = "start_tone @ replicate 4410 (0::real) @ concat tones @ replicate 4410 0 @ end_tone"
  have ne: "?full \<noteq> []" using sl by auto
  have "create_signal default_config msg =
          Inr (if Max (set (map abs ?full)) > 0
               then map (\<lambda>x. x / Max (set (map abs ?full)) * (8 / 10)) ?full else ?full)"
    unfolding create_signal_def Let_def s e t int_of_product_default_tenth
    using ne by simp
  moreover have "length ?full = 26460 + 4410 * length (text_to_binary msg)"
    by (simp add: sl el tl)
  ultimately show ?thesis by auto
qed

text \<open>
  C2. For the text \<^verbatim>\<open>"HI"\<close> at the default rate 44100 and bit duration 0.1,
  \<^verbatim>\<open>text_to_binary\<close> yields \<^verbatim>\<open>0100100001001001\<close>, and \<^verbatim>\<open>create_signal\<close> returns a
  buffer of 97020 samples: 8820 of start tone, 4410 of silence, 16 tones of 4410, 4410 of
  silence and 8820 of end tone.
\<close>

theorem scenario_a_bits_and_length:
  "text_to_binary (map of_char ''HI'') = ''0100100001001001''
   \<and> (\<exists>signal. create_signal default_config (map of_char ''HI'') = Inr signal
         \<and> length signal = 97020)"
proof -
  have b: "text_to_binary (map of_char ''HI'') = ''0100100001001001''"
    by code_simp
  from create_signal_default_length[of "map of_char ''HI''"]
  have "\<exists>signal. create_signal default_config (map of_char ''HI'') = Inr signal
         \<and> length signal = 97020"
    unfolding b by simp
  with b show ?thesis by blast
qed

subsection \<open>The dominant frequency of a chunk\<close>

lemma upt_4: "[0..<4] = [0, 1, 2, 3]"
  by (simp add: upt_rec)

lemma hanning_4: "hanning 4 = [0, 3 / 4, 3 / 4, 0]"
proof -
  have a: "cos (pi * (1 - 4 + 2 * 0) / 3) = - 1"
  proof -
    have "pi * (1 - 4 + 2 * 0) / 3 = - pi" by simp
    then show ?thesis by (simp only: cos_minus cos_pi)
  qed
  have b: "cos (pi * (1 - 4 + 2 * 1) / 3) = 1 / 2"
  proof -
    have "pi * (1 - 4 + 2 * 1) / 3 = - (pi / 3)" by simp
    then show ?thesis by (simp only: cos_minus cos_60)
  qed
  have c: "cos (pi * (1 - 4 + 2 * 2) / 3) = 1 / 2"
  proof -
    have "pi * (1 - 4 + 2 * 2) / 3 = pi / 3" by simp
    then show ?thesis by (simp only: cos_60)
  qed
  have d: "cos (pi * (1 - 4 + 2 * 3) / 3) = - 1"
  proof -
    have "pi * (1 - 4 + 2 * 3) / 3 = pi" by simp
    then show ?thesis by (simp only: cos_pi)
  qed
  have "hanning 4 = map (\<lambda>j. 1 / 2 + 1 / 2 * cos (pi * (1 - real 4 + 2 * real j) / real (4 - 1))) [0, 1, 2, 3]"
    by (simp add: hanning_def upt_4 del: upt_Suc)
  also have "\<dots> = [1 / 2 + 1 / 2 * cos (pi * (1 - 4 + 2 * 0) / 3),
                    1 / 2 + 1 / 2 * cos (pi * (1 - 4 + 2 * 1) / 3),
                    1 / 2 + 1 / 2 * cos (pi * (1 - 4 + 2 * 2) / 3),
                    1 / 2 + 1 / 2 * cos (pi * (1 - 4 + 2 * 3) / 3)]"
    by simp
  also have "\<dots> = [0, 3 / 4, 3 / 4, 0]"
    unfolding a b c d by simp
  finally show ?thesis .
qed

lemma cis_quarter: "cis (- (2 * pi * 1 * 1 / 4)) = - \<i>"
proof -
  have "- (2 * pi * 1 * 1 / 4) = - (pi / 2)" by simp
  then show ?thesis by (simp only: cis_minus_pi_half)
qed

lemma cis_half: "cis (- (2 * pi * 2 * 1 / 4)) = - 1"
proof -
  have "- (2 * pi * 2 * 1 / 4) = - pi" by simp
  then have "cis (- (2 * pi * 2 * 1 / 4)) = cis (- pi)" by (simp only:)
  also have "\<dots> = - 1" by (simp add: complex_eq_iff)
  finally show ?thesis .
qed

lemma magnitude_4:
  "magnitude [0, b, c, 0] = [\<bar>3 / 4 * b + 3 / 4 * c\<bar>, sqrt ((3 / 4 * c)\<^sup>2 + (3 / 4 * b)\<^sup>2)]"
proof -
  define ws where "ws = [0, 3 / 4 * b, 3 / 4 * c, 0]"
  have len4: "length [0, b, c, 0] = 4" by simp
  have w: "map2 (*) [0, b, c, 0] (hanning (length [0, b, c, 0])) = ws"
    unfolding len4 hanning_4 ws_def by simp
  have s: "(\<Sum>j<4. f j) = f 0 + f 1 + f 2 + f (3::nat)" for f :: "nat \<Rightarrow> complex"
    by (simp add: numeral_eq_Suc)
  have f0: "fft ws ! 0 = complex_of_real (3 / 4 * b + 3 / 4 * c)"
    by (simp add: ws_def fft_def upt_4 s del: upt_Suc)
  have f1: "fft ws ! 1 = Complex (- (3 / 4 * c)) (- (3 / 4 * b))"
  proof -
    have "fft ws ! 1 =
            complex_of_real (3 / 4 * b) * cis (- (2 * pi * 1 * 1 / 4))
              + complex_of_real (3 / 4 * c) * cis (- (2 * pi * 2 * 1 / 4))"
      by (simp add: ws_def fft_def upt_4 s del: upt_Suc)
    also have "\<dots> = Complex (- (3 / 4 * c)) (- (3 / 4 * b))"
      unfolding cis_quarter cis_half by (simp add: complex_eq_iff)
    finally show ?thesis .
  qed
  have l: "length (fft ws) = 4"
    by (simp add: ws_def fft_def)
  have t: "take 2 xs = [xs ! 0, xs ! 1]" if "length xs = 4" for xs :: "complex list"
  proof -
    from that obtain x0 x1 x2 x3 where "xs = [x0, x1, x2, x3]"
      by (cases xs; cases "tl xs"; cases "tl (tl xs)"; cases "tl (tl (tl xs))") auto
    then show ?thesis by simp
  qed
  have "magnitude [0, b, c, 0] = map cmod (take (length (fft ws) div 2) (fft ws))"
    unfolding magnitude_def Let_def w ..
  also have "\<dots> = map cmod [fft ws ! 0, fft ws ! 1]"
    using t[OF l] by (simp add: l)
  also have "\<dots> = [cmod (complex_of_real (3 / 4 * b + 3 / 4 * c)),
                      cmod (Complex (- (3 / 4 * c)) (- (3 / 4 * b)))]"
    unfolding f0 f1 by simp
  also have "\<dots> = [\<bar>3 / 4 * b + 3 / 4 * c\<bar>, sqrt ((3 / 4 * c)\<^sup>2 + (3 / 4 * b)\<^sup>2)]"
    unfolding norm_of_real complex_norm by simp
  finally show ?thesis .
qed

lemma detect_quiet:
  assumes "sample_rate cfg \<noteq> 0" and "magnitude audio_chunk \<noteq> []"
    and "Max (set (magnitude audio_chunk)) < min_amplitude"
  shows "detect_dominant_frequency cfg audio_chunk = Inr 0"
proof -
  from assms(2) have "audio_chunk \<noteq> []"
    by (auto simp: magnitude_def fft_def hanning_def)
  with assms show ?thesis
    by (simp add: detect_dominant_frequency_def Let_def)
qed

lemma classify_zero: "classify_frequency 0 = NOISE"
  by (simp add: classify_frequency_def freq_defs)

text \<open>
  C7. At a non-zero sample rate, a chunk whose magnitude spectrum has its peak below
  \<open>min_amplitude\<close> = 0.01 makes \<^verbatim>\<open>detect_dominant_frequency\<close> return the sentinel 0,
  and 0 is classified \<open>NOISE\<close>, whatever the chunk oscillates at: the classification
  pass records \<open>(0, NOISE)\<close> for it.
\<close>

theorem quiet_chunk_is_noise:
  assumes "sample_rate cfg \<noteq> 0" and "magnitude audio_chunk \<noteq> []"
    and "Max (set (magnitude audio_chunk)) < min_amplitude"
  shows "detect_dominant_frequency cfg audio_chunk = Inr 0
         \<and> classify_frequency 0 = NOISE
         \<and> analyze_chunks cfg [audio_chunk] = Inr [(0, NOISE)]"
  using detect_quiet[OF assms] classify_zero by simp

lemma quiet_example_magnitude:
  "magnitude [0, 1 / 1000, - (1 / 1000), 0] = [0, sqrt (9 / 8000000)]"
  by (simp add: magnitude_4 power2_eq_square)

lemma quiet_example_peak: "Max (set [0, sqrt (9 / 8000000)]) < min_amplitude"
proof -
  have "sqrt (9 / 8000000) < 1 / 100"
    by (rule real_less_lsqrt) (simp_all add: power2_eq_square)
  then show ?thesis by (simp add: min_amplitude_def)
qed

theorem quiet_chunk_is_noise_witness:
  "sample_rate \<lparr>sample_rate = 2000, bit_duration = 1 / 500\<rparr> \<noteq> 0
   \<and> magnitude [0, 1 / 1000, - (1 / 1000), 0] \<noteq> []
   \<and> Max (set (magnitude [0, 1 / 1000, - (1 / 1000), 0])) < min_amplitude
   \<and> detect_dominant_frequency \<lparr>sample_rate = 2000, bit_duration = 1 / 500\<rparr>
        [0, 1 / 1000, - (1 / 1000), 0] = Inr 0"
proof -
  have h1: "sample_rate \<lparr>sample_rate = 2000, bit_duration = 1 / 500\<rparr> \<noteq> 0" by simp
  have h2: "magnitude [0, 1 / 1000, - (1 / 1000), 0] \<noteq> []"
    unfolding quiet_example_magnitude by simp
  have h3: "Max (set (magnitude [0, 1 / 1000, - (1 / 1000), 0])) < min_amplitude"
    unfolding quiet_example_magnitude by (rule quiet_example_peak)
  from quiet_chunk_is_noise[OF h1 h2 h3] h1 h2 h3 show ?thesis by blast
qed

subsection \<open>A buffer without a start signal\<close>

lemma find_boundaries_no_start:
  "\<forall>p\<in>set cls. snd p \<noteq> START \<Longrightarrow> find_boundaries cls i None = (None, None)"
proof (induction cls arbitrary: i)
  case Nil
  then show ?case by simp
next
  case (Cons p cls)
  obtain freq c where p: "p = (freq, c)" by (cases p)
  with Cons.prems have "c \<noteq> START" by simp
  moreover from Cons have "find_boundaries cls (i + 1) None = (None, None)" by simp
  ultimately show ?case by (simp add: p)
qed

lemma process_classifications_no_start:
  "\<forall>p\<in>set cls. snd p \<noteq> START \<Longrightarrow> process_classifications cls = Inl NoStartSignal"
  by (simp add: process_classifications_def find_boundaries_no_start)

lemma analyze_chunks_quiet:
  assumes "sample_rate cfg \<noteq> 0"
    and "\<forall>c\<in>set chunks. magnitude c \<noteq> [] \<and> Max (set (magnitude c)) < min_amplitude"
  shows "analyze_chunks cfg chunks = Inr (map (\<lambda>c. (0, NOISE)) chunks)"
  using assms(2)
proof (induction chunks)
  case Nil
  then show ?case by simp
next
  case (Cons c chunks)
  from Cons.prems have q: "magnitude c \<noteq> [] \<and> Max (set (magnitude c)) < min_amplitude"
    by (meson list.set_intros(1))
  have "detect_dominant_frequency cfg c = Inr 0"
    by (rule detect_quiet[OF assms(1) conjunct1[OF q] conjunct2[OF q]])
  moreover from Cons.prems
  have "\<forall>c\<in>set chunks. magnitude c \<noteq> [] \<and> Max (set (magnitude c)) < min_amplitude"
    by (meson list.set_intros(2))
  then have "analyze_chunks cfg chunks = Inr (map (\<lambda>c. (0, NOISE)) chunks)"
    by (rule Cons.IH)
  ultimately show ?case by (simp add: classify_zero)
qed

lemma length_hanning: "length (hanning n) = n"
  by (simp add: hanning_def)

lemma fft_zero:
  assumes "\<forall>x\<in>set ws. x = 0"
  shows "fft ws = replicate (length ws) 0"
proof -
  have "(\<Sum>j<length ws. complex_of_real (ws ! j) * cis (- (2 * pi * real j * real k / real (length ws)))) = 0"
    for k
  proof (rule sum.neutral, rule ballI)
    fix j assume "j \<in> {..<length ws}"
    then have "ws ! j \<in> set ws" by simp
    with assms have "ws ! j = 0" by blast
    then show "complex_of_real (ws ! j) * cis (- (2 * pi * real j * real k / real (length ws))) = 0"
      by simp
  qed
  then show ?thesis
    by (simp add: fft_def Let_def map_replicate_const)
qed

lemma magnitude_zero:
  assumes "set c \<subseteq> {0}"
  shows "magnitude c = replicate (length c div 2) 0"
proof -
  let ?ws = "map2 (*) c (hanning (length c))"
  have z: "\<forall>x\<in>set ?ws. x = 0"
  proof
    fix x assume "x \<in> set ?ws"
    then obtain a b where "(a, b) \<in> set (zip c (hanning (length c)))" and x: "x = a * b"
      by auto
    then have "a \<in> set c" by (meson set_zip_leftD)
    with assms have "a = 0" by blast
    with x show "x = 0" by simp
  qed
  have l: "length ?ws = length c" by (simp add: length_hanning)
  have "magnitude c = map cmod (take (length (fft ?ws) div 2) (fft ?ws))"
    unfolding magnitude_def Let_def ..
  also have "\<dots> = replicate (length c div 2) 0"
    unfolding fft_zero[OF z] l by (simp add: min_def)
  finally show ?thesis .
qed

lemma zero_chunk_quiet:
  assumes "set c \<subseteq> {0}" and "2 \<le> length c"
  shows "magnitude c \<noteq> [] \<and> Max (set (magnitude c)) < min_amplitude"
proof -
  from assms(2) have "0 < length c div 2" by simp
  then show ?thesis
    unfolding magnitude_zero[OF assms(1)] by (simp add: min_amplitude_def)
qed

lemma chunk_loop_chunks:
  "c \<in> set (chunk_loop audio_data chunk_size i) \<Longrightarrow>
   set c \<subseteq> set audio_data \<and> chunk_size div 2 \<le> length c"
proof (induction audio_data chunk_size i rule: chunk_loop.induct)
  case (1 audio_data chunk_size i)
  show ?case
  proof (cases "chunk_size = 0 \<or> length audio_data \<le> i")
    case True
    with "1.prems" show ?thesis by (subst (asm) chunk_loop.simps) simp
  next
    case False
    let ?chunk = "take chunk_size (drop i audio_data)"
    from "1.prems" False
    have "c \<in> set (if chunk_size div 2 \<le> length ?chunk then [?chunk] else [])
          \<or> c \<in> set (chunk_loop audio_data chunk_size (i + chunk_size))"
      by (subst (asm) chunk_loop.simps) (simp add: Let_def)
    then show ?thesis
    proof
      assume "c \<in> set (if chunk_size div 2 \<le> length ?chunk then [?chunk] else [])"
      then have "c = ?chunk" and "chunk_size div 2 \<le> length ?chunk"
        by (auto split: if_splits)
      moreover have "set ?chunk \<subseteq> set audio_data"
        by (meson in_set_dropD in_set_takeD subsetI)
      ultimately show ?thesis by simp
    next
      assume "c \<in> set (chunk_loop audio_data chunk_size (i + chunk_size))"
      with "1.IH"[OF False refl] show ?thesis by simp
    qed
  qed
qed

text \<open>
  C6 (as the code has it). When the classification pass finds no \<open>START\<close> chunk,
  \<^verbatim>\<open>process_audio\<close> returns at "No START signal found" and yields no text. That is the case
  when every chunk has its spectral peak below \<open>min_amplitude\<close>, and so for an all-zero
  buffer cut into chunks of at least four samples. The threshold is on the magnitude of the
  transform, not on the samples.
\<close>

theorem no_start_signal:
  "(make_chunks cfg audio_data = Inr chunks \<and> analyze_chunks cfg chunks = Inr classifications
      \<and> (\<forall>p\<in>set classifications. snd p \<noteq> START)
      \<longrightarrow> process_audio cfg audio_data = Inl NoStartSignal)
   \<and> (sample_rate cfg \<noteq> 0 \<and> make_chunks cfg audio_data = Inr chunks
      \<and> (\<forall>c\<in>set chunks. magnitude c \<noteq> [] \<and> Max (set (magnitude c)) < min_amplitude)
      \<longrightarrow> process_audio cfg audio_data = Inl NoStartSignal)
   \<and> (sample_rate cfg \<noteq> 0
      \<and> int_of_product (sample_rate cfg) (bit_duration cfg) = Inr samples_per_bit
      \<and> 4 \<le> samples_per_bit \<and> set audio_data \<subseteq> {0}
      \<longrightarrow> process_audio cfg audio_data = Inl NoStartSignal)"
proof (intro conjI impI)
  assume "make_chunks cfg audio_data = Inr chunks \<and> analyze_chunks cfg chunks = Inr classifications
      \<and> (\<forall>p\<in>set classifications. snd p \<noteq> START)"
  then show "process_audio cfg audio_data = Inl NoStartSignal"
    by (simp add: process_audio_def process_classifications_no_start)
next
  assume h: "sample_rate cfg \<noteq> 0 \<and> make_chunks cfg audio_data = Inr chunks
      \<and> (\<forall>c\<in>set chunks. magnitude c \<noteq> [] \<and> Max (set (magnitude c)) < min_amplitude)"
  then have "analyze_chunks cfg chunks = Inr (map (\<lambda>c. (0, NOISE)) chunks)"
    using analyze_chunks_quiet by blast
  moreover have "\<forall>p\<in>set (map (\<lambda>c. (0::real, NOISE)) chunks). snd p \<noteq> START"
    by simp
  ultimately show "process_audio cfg audio_data = Inl NoStartSignal"
    using h by (simp add: process_audio_def process_classifications_no_start del: set_map)
next
  assume h: "sample_rate cfg \<noteq> 0
      \<and> int_of_product (sample_rate cfg) (bit_duration cfg) = Inr samples_per_bit
      \<and> 4 \<le> samples_per_bit \<and> set audio_data \<subseteq> {0}"
  define n where "n = nat samples_per_bit"
  from h have n: "4 \<le> n" unfolding n_def by arith
  from h have mk: "make_chunks cfg audio_data = Inr (chunk_loop audio_data n 0)"
    by (simp add: make_chunks_def Let_def n_def)
  have q: "\<forall>c\<in>set (chunk_loop audio_data n 0). magnitude c \<noteq> [] \<and> Max (set (magnitude c)) < min_amplitude"
  proof
    fix c assume "c \<in> set (chunk_loop audio_data n 0)"
    from chunk_loop_chunks[OF this] have "set c \<subseteq> set audio_data" and "n div 2 \<le> length c"
      by simp_all
    moreover from n have "2 \<le> n div 2" by simp
    ultimately have "set c \<subseteq> {0}" and "2 \<le> length c" using h by auto
    then show "magnitude c \<noteq> [] \<and> Max (set (magnitude c)) < min_amplitude"
      by (rule zero_chunk_quiet)
  qed
  from h have "analyze_chunks cfg (chunk_loop audio_data n 0) =
                 Inr (map (\<lambda>c. (0, NOISE)) (chunk_loop audio_data n 0))"
    using analyze_chunks_quiet[OF _ q] by blast
  moreover have "\<forall>p\<in>set (map (\<lambda>c. (0::real, NOISE)) (chunk_loop audio_data n 0)). snd p \<noteq> START"
    by simp
  ultimately show "process_audio cfg audio_data = Inl NoStartSignal"
    using mk by (simp add: process_audio_def process_classifications_no_start del: set_map)
qed

lemma small_config_chunk_size:
  "int_of_product (sample_rate \<lparr>sample_rate = 2000, bit_duration = 1 / 500\<rparr>)
     (bit_duration \<lparr>sample_rate = 2000, bit_duration = 1 / 500\<rparr>) = Inr 4"
proof -
  have big: "(2::real) ^ 53 \<le> double_max" by (rule double_max_large)
  have "int_of_product (sample_rate \<lparr>sample_rate = 2000, bit_duration = 1 / 500\<rparr>)
          (bit_duration \<lparr>sample_rate = 2000, bit_duration = 1 / 500\<rparr>) = Inr (py_int 4)"
  proof (rule int_of_product_eval)
    show "round_double (real_of_int (sample_rate \<lparr>sample_rate = 2000, bit_duration = 1 / 500\<rparr>)) = 2000"
      by (simp add: round_double_2000)
    show "float_mul (real_of_int (sample_rate \<lparr>sample_rate = 2000, bit_duration = 1 / 500\<rparr>))
            (bit_duration \<lparr>sample_rate = 2000, bit_duration = 1 / 500\<rparr>) = 4"
      using float_mul_2000_500th by simp
    show "\<bar>2000 :: real\<bar> \<le> double_max" using big by simp
    show "\<bar>4 :: real\<bar> \<le> double_max" using big by simp
  qed
  then show ?thesis by (simp add: py_int_def)
qed

lemma chunk_loop_unfold:
  "i < length audio_data \<Longrightarrow> 0 < chunk_size \<Longrightarrow>
   chunk_size div 2 \<le> length (take chunk_size (drop i audio_data)) \<Longrightarrow>
   chunk_loop audio_data chunk_size i =
     take chunk_size (drop i audio_data) # chunk_loop audio_data chunk_size (i + chunk_size)"
  by (subst chunk_loop.simps) (simp add: Let_def)

lemma chunk_loop_done:
  "length audio_data \<le> i \<Longrightarrow> chunk_loop audio_data chunk_size i = []"
  by (subst chunk_loop.simps) simp

theorem no_start_signal_witness:
  "sample_rate \<lparr>sample_rate = 2000, bit_duration = 1 / 500\<rparr> \<noteq> 0
   \<and> int_of_product (sample_rate \<lparr>sample_rate = 2000, bit_duration = 1 / 500\<rparr>)
         (bit_duration \<lparr>sample_rate = 2000, bit_duration = 1 / 500\<rparr>) = Inr 4
   \<and> set [0, 0, 0, 0, 0, 0, 0, 0 :: real] \<subseteq> {0}
   \<and> process_audio \<lparr>sample_rate = 2000, bit_duration = 1 / 500\<rparr> [0, 0, 0, 0, 0, 0, 0, 0]
       = Inl NoStartSignal"
proof -
  let ?cfg = "\<lparr>sample_rate = 2000, bit_duration = 1 / 500\<rparr>"
  have h1: "sample_rate ?cfg \<noteq> 0" by simp
  have h2: "int_of_product (sample_rate ?cfg) (bit_duration ?cfg) = Inr 4"
    by (rule small_config_chunk_size)
  have h3: "set [0, 0, 0, 0, 0, 0, 0, 0 :: real] \<subseteq> {0}" by simp
  have h4: "(4::int) \<le> 4" by simp
  from no_start_signal[where cfg = ?cfg and audio_data = "[0, 0, 0, 0, 0, 0, 0, 0]"
      and samples_per_bit = 4] h1 h2 h3 h4
  have "process_audio ?cfg [0, 0, 0, 0, 0, 0, 0, 0] = Inl NoStartSignal"
    by blast
  with h1 h2 h3 show ?thesis by blast
qed

lemma loud_example_magnitude:
  "magnitude [0, 99 / 10000, - (99 / 10000), 0] = [0, sqrt (88209 / 800000000)]"
  by (simp add: magnitude_4 power2_eq_square)

lemma loud_example_peak:
  "1 / 100 \<le> sqrt (88209 / 800000000)"
  by (rule real_le_rsqrt) (simp add: power2_eq_square)

lemma loud_example_frequency:
  "detect_dominant_frequency \<lparr>sample_rate = 2000, bit_duration = 1 / 500\<rparr>
     [0, 99 / 10000, - (99 / 10000), 0] = Inr 500"
proof -
  define m :: real where "m = sqrt (88209 / 800000000)"
  have m: "1 / 100 \<le> m" unfolding m_def by (rule loud_example_peak)
  then have pos: "0 < m" by simp
  have mx: "Max (set [0, m]) = m" using pos by simp
  have am: "argmax [0, m] = 1" unfolding argmax_def mx using pos by simp
  have fr: "take (length (fftfreq 4 (1 / real_of_int 2000)) div 2) (fftfreq 4 (1 / real_of_int 2000)) ! 1 = 500"
    by (simp add: fftfreq_def upt_4 del: upt_Suc)
  have len: "length [0, 99 / 10000, - (99 / 10000), 0 :: real] = 4" by simp
  show ?thesis
    unfolding detect_dominant_frequency_def Let_def len loud_example_magnitude m_def[symmetric]
    using m fr by (simp add: mx am min_amplitude_def)
qed

lemma quiet_samples_chunks:
  "make_chunks \<lparr>sample_rate = 2000, bit_duration = 1 / 500\<rparr>
     [0, 99 / 10000, - (99 / 10000), 0, 0, 99 / 10000, - (99 / 10000), 0,
      0, 0, 0, 0, 0, 99 / 10000, - (99 / 10000), 0] =
   Inr [[0, 99 / 10000, - (99 / 10000), 0], [0, 99 / 10000, - (99 / 10000), 0],
        [0, 0, 0, 0], [0, 99 / 10000, - (99 / 10000), 0]]"
proof -
  let ?a = "[0, 99 / 10000, - (99 / 10000), 0, 0, 99 / 10000, - (99 / 10000), 0,
      0, 0, 0, 0, 0, 99 / 10000, - (99 / 10000), 0 :: real]"
  have c4: "chunk_loop ?a 4 16 = []" by (rule chunk_loop_done) simp
  have c3: "chunk_loop ?a 4 12 = [[0, 99 / 10000, - (99 / 10000), 0]]"
    using chunk_loop_unfold[of 12 ?a 4] c4 by simp
  have c2: "chunk_loop ?a 4 8 = [[0, 0, 0, 0], [0, 99 / 10000, - (99 / 10000), 0]]"
    using chunk_loop_unfold[of 8 ?a 4] c3 by simp
  have c1: "chunk_loop ?a 4 4 = [[0, 99 / 10000, - (99 / 10000), 0],
      [0, 0, 0, 0], [0, 99 / 10000, - (99 / 10000), 0]]"
    using chunk_loop_unfold[of 4 ?a 4] c2 by simp
  have c0: "chunk_loop ?a 4 0 = [[0, 99 / 10000, - (99 / 10000), 0],
      [0, 99 / 10000, - (99 / 10000), 0], [0, 0, 0, 0], [0, 99 / 10000, - (99 / 10000), 0]]"
    using chunk_loop_unfold[of 0 ?a 4] c1 by simp
  show ?thesis
    unfolding make_chunks_def Let_def small_config_chunk_size using c0 by simp
qed

lemma zero_chunk_frequency:
  "detect_dominant_frequency \<lparr>sample_rate = 2000, bit_duration = 1 / 500\<rparr> [0, 0, 0, 0] = Inr 0"
proof -
  have "magnitude [0, 0, 0, 0] \<noteq> [] \<and> Max (set (magnitude [0, 0, 0, 0])) < min_amplitude"
    by (rule zero_chunk_quiet) simp_all
  then show ?thesis by (intro detect_quiet) simp_all
qed

lemma classify_500: "classify_frequency 500 = START"
  by (simp add: classify_frequency_def freq_defs)

text \<open>
  C6 as stated fails for samples that merely stay below \<open>min_amplitude\<close>: at rate 2000
  and bit duration 0.002 (four samples per chunk) the samples \<open>0, 0.0099, -0.0099, 0\<close>
  have a spectral peak of about 0.0105 at 500 Hz, a \<open>START\<close> chunk. The buffer below, of
  such chunks and one silent chunk, is decoded to the text \<^verbatim>\<open>[0]\<close>.
\<close>

theorem quiet_samples_counterexample:
  "\<bar>99 / 10000\<bar> < min_amplitude
   \<and> process_audio \<lparr>sample_rate = 2000, bit_duration = 1 / 500\<rparr>
        [0, 99 / 10000, - (99 / 10000), 0, 0, 99 / 10000, - (99 / 10000), 0,
         0, 0, 0, 0, 0, 99 / 10000, - (99 / 10000), 0] = Inr ''[0]''"
proof -
  have a: "analyze_chunks \<lparr>sample_rate = 2000, bit_duration = 1 / 500\<rparr>
             [[0, 99 / 10000, - (99 / 10000), 0], [0, 99 / 10000, - (99 / 10000), 0],
              [0, 0, 0, 0], [0, 99 / 10000, - (99 / 10000), 0]] =
           Inr [(500, START), (500, START), (0, NOISE), (500, START)]"
    by (simp add: loud_example_frequency zero_chunk_frequency classify_500 classify_zero)
  have p: "process_classifications [(500, START), (500, START), (0, NOISE), (500, START)] = Inr ''[0]''"
    by code_simp
  have "\<bar>99 / 10000\<bar> < min_amplitude" by (simp add: min_amplitude_def)
  moreover have "process_audio \<lparr>sample_rate = 2000, bit_duration = 1 / 500\<rparr>
        [0, 99 / 10000, - (99 / 10000), 0, 0, 99 / 10000, - (99 / 10000), 0,
         0, 0, 0, 0, 0, 99 / 10000, - (99 / 10000), 0] = Inr ''[0]''"
    by (simp only: process_audio_def quiet_samples_chunks sum.case a p)
  ultimately show ?thesis by (rule conjI)
qed

subsection \<open>Roots of unity and the transform of a windowed tone\<close>

lemma unit_root_sum:
  fixes m :: int and N :: nat
  assumes "0 < N"
  shows "(\<Sum>n<N. cis (2 * pi * real_of_int m * real n / real N)) =
           (if int N dvd m then of_nat N else 0)"
proof -
  define z where "z = cis (2 * pi * real_of_int m / real N)"
  have pw: "cis (2 * pi * real_of_int m * real n / real N) = z ^ n" for n
    unfolding z_def DeMoivre by (simp add: field_simps)
  have zN: "z ^ N = 1"
  proof -
    have "z ^ N = cis (real N * (2 * pi * real_of_int m / real N))"
      unfolding z_def DeMoivre ..
    also have "real N * (2 * pi * real_of_int m / real N) = 2 * pi * real_of_int m"
      using assms by simp
    also have "cis (2 * pi * real_of_int m) = 1"
      by (rule cis_multiple_2pi) simp
    finally show ?thesis .
  qed
  show ?thesis
  proof (cases "int N dvd m")
    case True
    then obtain q where q: "m = int N * q" ..
    have "2 * pi * real_of_int m / real N = 2 * pi * real_of_int q"
      using assms by (simp add: q)
    then have "z = 1" unfolding z_def by (simp only: cis_multiple_2pi Ints_of_int)
    then show ?thesis using True by (simp add: pw)
  next
    case False
    have "z \<noteq> 1"
    proof
      assume "z = 1"
      then have "cos (2 * pi * real_of_int m / real N) = 1"
        unfolding z_def by (simp add: complex_eq_iff)
      then obtain j :: int where j: "2 * pi * real_of_int m / real N = real_of_int j * 2 * pi"
        unfolding cos_one_2pi_int by blast
      then have "real_of_int m = real_of_int j * real N"
        using assms by (simp add: field_simps)
      then have "real_of_int m = real_of_int (j * int N)" by simp
      then have "m = j * int N" by (simp only: of_int_eq_iff)
      then have "int N dvd m" by simp
      with False show False ..
    qed
    then have "(\<Sum>n<N. z ^ n) = (z ^ N - 1) / (z - 1)"
      by (rule geometric_sum)
    then show ?thesis using False by (simp add: pw zN)
  qed
qed

lemma not_dvd_small:
  fixes m :: int and N :: nat
  assumes "m \<noteq> 0" and "\<bar>m\<bar> < int N"
  shows "\<not> int N dvd m"
proof
  assume "int N dvd m"
  then have "int N dvd \<bar>m\<bar>" by simp
  moreover from assms(1) have "0 < \<bar>m\<bar>" by simp
  ultimately have "int N \<le> \<bar>m\<bar>" by (rule zdvd_imp_le)
  with assms(2) show False by simp
qed

lemma of_real_sin_cis: "complex_of_real (sin x) = (cis x - cis (- x)) / (2 * \<i>)"
  by (simp add: complex_eq_iff)

lemma of_real_cos_cis: "complex_of_real (cos x) = (cis x + cis (- x)) / 2"
  by (simp add: complex_eq_iff)

lemma hann_sine_term:
  fixes a b c d e :: complex
  shows "(a - b) / (2 * \<i>) * (1 / 2 - 1 / 2 * ((c + d) / 2)) * e =
         (1 / (2 * \<i>)) * (1 / 2 * (a * e) - 1 / 2 * (b * e) - 1 / 4 * (a * c * e) - 1 / 4 * (a * d * e)
            + 1 / 4 * (b * c * e) + 1 / 4 * (b * d * e))"
  by (simp add: field_simps)

lemma hann_sine_dft:
  fixes N k0 k :: nat
  assumes N: "0 < N" and k0: "2 \<le> k0" "2 * k0 + 2 < N" and k: "2 * k < N"
  shows "(\<Sum>n<N. complex_of_real (sin (2 * pi * real k0 * real n / real N)
                      * (1 / 2 - 1 / 2 * cos (2 * pi * real n / real N)))
                    * cis (- (2 * pi * real n * real k / real N))) =
         of_nat N * (if k = k0 then 1 / (4 * \<i>)
                     else if k = k0 + 1 \<or> k + 1 = k0 then - 1 / (8 * \<i>) else 0)"
proof -
  define U :: "int \<Rightarrow> nat \<Rightarrow> complex"
    where "U m n = cis (2 * pi * real_of_int m * real n / real N)" for m n
  have Umult: "U p n * U q n = U (p + q) n" for p q n
  proof -
    have "2 * pi * real_of_int p * real n / real N + 2 * pi * real_of_int q * real n / real N =
          2 * pi * real_of_int (p + q) * real n / real N"
      by (simp add: algebra_simps add_divide_distrib)
    then show ?thesis unfolding U_def cis_mult by (simp only:)
  qed
  have S: "(\<Sum>n<N. U m n) = (if int N dvd m then of_nat N else 0)" for m
    unfolding U_def by (rule unit_root_sum[OF N])
  have tm: "complex_of_real (sin (2 * pi * real k0 * real n / real N)
                      * (1 / 2 - 1 / 2 * cos (2 * pi * real n / real N)))
                    * cis (- (2 * pi * real n * real k / real N)) =
        (1 / (2 * \<i>)) * (1 / 2 * U (int k0 - int k) n - 1 / 2 * U (- int k0 - int k) n
            - 1 / 4 * U (int k0 + 1 - int k) n - 1 / 4 * U (int k0 - 1 - int k) n
            + 1 / 4 * U (- int k0 + 1 - int k) n + 1 / 4 * U (- int k0 - 1 - int k) n)" for n
  proof -
    have s: "complex_of_real (sin (2 * pi * real k0 * real n / real N)) =
               (U (int k0) n - U (- int k0) n) / (2 * \<i>)"
      unfolding U_def of_real_sin_cis by simp
    have c: "complex_of_real (cos (2 * pi * real n / real N)) = (U 1 n + U (- 1) n) / 2"
      unfolding U_def of_real_cos_cis by simp
    have e: "cis (- (2 * pi * real n * real k / real N)) = U (- int k) n"
      unfolding U_def by (simp add: mult.commute mult.left_commute)
    have "complex_of_real (sin (2 * pi * real k0 * real n / real N)
                      * (1 / 2 - 1 / 2 * cos (2 * pi * real n / real N)))
                    * cis (- (2 * pi * real n * real k / real N)) =
          (U (int k0) n - U (- int k0) n) / (2 * \<i>)
            * (1 / 2 - 1 / 2 * ((U 1 n + U (- 1) n) / 2)) * U (- int k) n"
      unfolding of_real_mult of_real_diff s c e by simp
    also have "\<dots> = (1 / (2 * \<i>)) * (1 / 2 * (U (int k0) n * U (- int k) n)
            - 1 / 2 * (U (- int k0) n * U (- int k) n)
            - 1 / 4 * (U (int k0) n * U 1 n * U (- int k) n)
            - 1 / 4 * (U (int k0) n * U (- 1) n * U (- int k) n)
            + 1 / 4 * (U (- int k0) n * U 1 n * U (- int k) n)
            + 1 / 4 * (U (- int k0) n * U (- 1) n * U (- int k) n))"
      by (rule hann_sine_term)
    also have "\<dots> = (1 / (2 * \<i>)) * (1 / 2 * U (int k0 - int k) n - 1 / 2 * U (- int k0 - int k) n
            - 1 / 4 * U (int k0 + 1 - int k) n - 1 / 4 * U (int k0 - 1 - int k) n
            + 1 / 4 * U (- int k0 + 1 - int k) n + 1 / 4 * U (- int k0 - 1 - int k) n)"
    proof -
      have two: "U p n * U q n = U m n" if "p + q = m" for p q m
        using that Umult by blast
      have three: "U p n * U q n * U r n = U m n" if "p + q + r = m" for p q r m
        using that Umult by metis
      have "U (int k0) n * U (- int k) n = U (int k0 - int k) n"
        by (rule two) simp
      moreover have "U (- int k0) n * U (- int k) n = U (- int k0 - int k) n"
        by (rule two) simp
      moreover have "U (int k0) n * U 1 n * U (- int k) n = U (int k0 + 1 - int k) n"
        by (rule three) simp
      moreover have "U (int k0) n * U (- 1) n * U (- int k) n = U (int k0 - 1 - int k) n"
        by (rule three) simp
      moreover have "U (- int k0) n * U 1 n * U (- int k) n = U (- int k0 + 1 - int k) n"
        by (rule three) simp
      moreover have "U (- int k0) n * U (- 1) n * U (- int k) n = U (- int k0 - 1 - int k) n"
        by (rule three) simp
      ultimately show ?thesis by (simp only:)
    qed
    finally show ?thesis .
  qed
  have d2: "\<not> int N dvd (- int k0 - int k)"
    using k0 k by (intro not_dvd_small) simp_all
  have d5: "\<not> int N dvd (- int k0 + 1 - int k)"
    using k0 k by (intro not_dvd_small) simp_all
  have d6: "\<not> int N dvd (- int k0 - 1 - int k)"
    using k0 k by (intro not_dvd_small) simp_all
  have d1: "int N dvd (int k0 - int k) \<longleftrightarrow> k = k0"
  proof
    assume "int N dvd (int k0 - int k)"
    show "k = k0"
    proof (rule ccontr)
      assume "k \<noteq> k0"
      then have "\<not> int N dvd (int k0 - int k)"
        using k0 k by (intro not_dvd_small) simp_all
      with \<open>int N dvd (int k0 - int k)\<close> show False by simp
    qed
  qed simp
  have d3: "int N dvd (int k0 + 1 - int k) \<longleftrightarrow> k = k0 + 1"
  proof
    assume "int N dvd (int k0 + 1 - int k)"
    show "k = k0 + 1"
    proof (rule ccontr)
      assume "k \<noteq> k0 + 1"
      then have "\<not> int N dvd (int k0 + 1 - int k)"
        using k0 k by (intro not_dvd_small) simp_all
      with \<open>int N dvd (int k0 + 1 - int k)\<close> show False by simp
    qed
  qed simp
  have d4: "int N dvd (int k0 - 1 - int k) \<longleftrightarrow> k + 1 = k0"
  proof
    assume "int N dvd (int k0 - 1 - int k)"
    show "k + 1 = k0"
    proof (rule ccontr)
      assume "k + 1 \<noteq> k0"
      then have "\<not> int N dvd (int k0 - 1 - int k)"
        using k0 k by (intro not_dvd_small) simp_all
      with \<open>int N dvd (int k0 - 1 - int k)\<close> show False by simp
    qed
  next
    assume "k + 1 = k0"
    then have "int k0 - 1 - int k = 0" by simp
    then show "int N dvd (int k0 - 1 - int k)" by simp
  qed
  have "(\<Sum>n<N. complex_of_real (sin (2 * pi * real k0 * real n / real N)
                      * (1 / 2 - 1 / 2 * cos (2 * pi * real n / real N)))
                    * cis (- (2 * pi * real n * real k / real N))) =
        (1 / (2 * \<i>)) * (1 / 2 * (\<Sum>n<N. U (int k0 - int k) n) - 1 / 2 * (\<Sum>n<N. U (- int k0 - int k) n)
            - 1 / 4 * (\<Sum>n<N. U (int k0 + 1 - int k) n) - 1 / 4 * (\<Sum>n<N. U (int k0 - 1 - int k) n)
            + 1 / 4 * (\<Sum>n<N. U (- int k0 + 1 - int k) n) + 1 / 4 * (\<Sum>n<N. U (- int k0 - 1 - int k) n))"
    unfolding tm by (simp only: sum_distrib_left[symmetric] sum.distrib sum_subtractf)
  also have "\<dots> = of_nat N * (if k = k0 then 1 / (4 * \<i>)
                     else if k = k0 + 1 \<or> k + 1 = k0 then - 1 / (8 * \<i>) else 0)"
    unfolding S using d1 d2 d3 d4 d5 d6 by (auto simp: field_simps)
  finally show ?thesis .
qed

subsection \<open>The spectrum of a tone chunk\<close>

lemma argmax_unique:
  assumes "k0 < length xs" and "\<forall>k<length xs. k \<noteq> k0 \<longrightarrow> xs ! k < xs ! k0"
  shows "Max (set xs) = xs ! k0" and "argmax xs = k0"
proof -
  show m: "Max (set xs) = xs ! k0"
  proof (rule Max_eqI)
    show "finite (set xs)" by simp
    show "xs ! k0 \<in> set xs" using assms(1) by simp
    fix y assume "y \<in> set xs"
    then obtain k where "k < length xs" and "y = xs ! k" by (auto simp: in_set_conv_nth)
    with assms(2) show "y \<le> xs ! k0" by (cases "k = k0") (auto simp: less_imp_le)
  qed
  let ?P = "\<lambda>x. x \<noteq> xs ! k0"
  have "?P (xs ! i)" if "i < k0" for i
  proof -
    from that assms(1) have "i < length xs" "i \<noteq> k0" by simp_all
    with assms(2) have "xs ! i < xs ! k0" by blast
    then show ?thesis by simp
  qed
  then have ge: "k0 \<le> length (takeWhile ?P xs)"
    using assms(1) by (intro length_takeWhile_less_P_nth) simp_all
  have "\<not> k0 < length (takeWhile ?P xs)"
  proof
    assume l: "k0 < length (takeWhile ?P xs)"
    then have "takeWhile ?P xs ! k0 \<in> set (takeWhile ?P xs)" by simp
    then have "?P (takeWhile ?P xs ! k0)" by (rule set_takeWhileD[THEN conjunct2])
    moreover have "takeWhile ?P xs ! k0 = xs ! k0" using l by (rule takeWhile_nth)
    ultimately show False by simp
  qed
  with ge show "argmax xs = k0" unfolding argmax_def m by simp
qed

lemma hann_between:
  fixes x :: real
  shows "0 \<le> 1 / 2 + 1 / 2 * cos x" "1 / 2 + 1 / 2 * cos x \<le> 1"
proof -
  have "- 1 \<le> cos x" "cos x \<le> 1" by simp_all
  then show "0 \<le> 1 / 2 + 1 / 2 * cos x" "1 / 2 + 1 / 2 * cos x \<le> 1" by linarith+
qed

lemma cos_lipschitz:
  fixes x y :: real
  shows "\<bar>cos x - cos y\<bar> \<le> \<bar>x - y\<bar>"
proof -
  have "\<bar>cos x - cos y\<bar> = 2 * \<bar>sin ((x + y) / 2)\<bar> * \<bar>sin ((y - x) / 2)\<bar>"
    unfolding cos_diff_cos by (simp add: abs_mult)
  also have "\<dots> \<le> 2 * 1 * \<bar>(y - x) / 2\<bar>"
    by (intro mult_mono abs_sin_x_le_abs_x) simp_all
  also have "\<dots> = \<bar>x - y\<bar>" by simp
  finally show ?thesis .
qed

lemma half_abs:
  fixes u v :: real
  shows "\<bar>(1 / 2 + 1 / 2 * (- v)) - (1 / 2 - 1 / 2 * u)\<bar> = 1 / 2 * \<bar>u - v\<bar>"
proof -
  have "(1 / 2 + 1 / 2 * (- v)) - (1 / 2 - 1 / 2 * u) = (u - v) / 2"
    by (simp add: field_simps)
  then have "\<bar>(1 / 2 + 1 / 2 * (- v)) - (1 / 2 - 1 / 2 * u)\<bar> = \<bar>u - v\<bar> / \<bar>2\<bar>"
    by (simp only: abs_divide)
  then show ?thesis by simp
qed

lemma hann_window_close:
  fixes N n :: nat
  assumes "1 < N" and "n < N"
  shows "\<bar>(1 / 2 + 1 / 2 * cos (pi * (1 - real N + 2 * real n) / real (N - 1)))
          - (1 / 2 - 1 / 2 * cos (2 * pi * real n / real N))\<bar> \<le> pi / real N"
proof -
  let ?al = "2 * pi * real n / real (N - 1)"
  let ?be = "2 * pi * real n / real N"
  have r: "real (N - 1) = real N - 1" using assms by (simp add: of_nat_diff)
  have "pi * (1 - real N + 2 * real n) / real (N - 1) = ?al - pi"
    using assms unfolding r by (simp add: field_simps)
  then have "cos (pi * (1 - real N + 2 * real n) / real (N - 1)) = - cos ?al"
    by (simp only: cos_diff) simp
  then have "\<bar>(1 / 2 + 1 / 2 * cos (pi * (1 - real N + 2 * real n) / real (N - 1)))
          - (1 / 2 - 1 / 2 * cos ?be)\<bar> = 1 / 2 * \<bar>cos ?be - cos ?al\<bar>"
    by (simp only: half_abs)
  also have "\<dots> \<le> 1 / 2 * \<bar>?be - ?al\<bar>"
    using cos_lipschitz[of ?be ?al] by simp
  also have "?be - ?al = - (2 * pi * real n / (real N * (real N - 1)))"
    using assms unfolding r by (simp add: field_simps)
  also have "1 / 2 * \<bar>- (2 * pi * real n / (real N * (real N - 1)))\<bar> =
             pi * real n / (real N * (real N - 1))"
    using assms by (simp add: abs_mult)
  also have "\<dots> \<le> pi * (real N - 1) / (real N * (real N - 1))"
  proof -
    have "real n \<le> real N - 1" using assms by linarith
    moreover have "0 < real N * (real N - 1)" using assms by simp
    ultimately show ?thesis
      by (intro divide_right_mono mult_left_mono) simp_all
  qed
  also have "\<dots> = pi / real N" using assms by simp
  finally show ?thesis .
qed

lemma edge_sum_bound:
  fixes b :: "nat \<Rightarrow> real"
  assumes mid: "\<And>n. 100 \<le> n \<Longrightarrow> n < 4310 \<Longrightarrow> b n \<le> pi / 4410"
    and edge: "\<And>n. n < 4410 \<Longrightarrow> b n \<le> 1"
  shows "(\<Sum>n<4410. b n) \<le> 204"
proof -
  have split: "(\<Sum>n<4410. b n) = sum b {0..<100} + sum b {100..<4310} + sum b {4310..<4410}"
    unfolding lessThan_atLeast0
    by (simp add: sum.atLeastLessThan_concat)
  have "sum b {0..<100} \<le> of_nat (card {0..<100::nat}) * 1"
    by (rule sum_bounded_above) (simp add: edge)
  then have s1: "sum b {0..<100} \<le> 100" by simp
  have "sum b {4310..<4410} \<le> of_nat (card {4310..<4410::nat}) * 1"
    by (rule sum_bounded_above) (simp add: edge)
  then have s3: "sum b {4310..<4410} \<le> 100" by simp
  have "sum b {100..<4310} \<le> of_nat (card {100..<4310::nat}) * (pi / 4410)"
  proof (rule sum_bounded_above)
    fix i :: nat assume "i \<in> {100..<4310}"
    then have "100 \<le> i" "i < 4310" by simp_all
    then show "b i \<le> pi / 4410" by (rule mid)
  qed
  then have "sum b {100..<4310} \<le> 4210 * (pi / 4410)" by simp
  also have "\<dots> \<le> 4210 * (4 / 4410)"
    using pi_less_4 by (intro mult_left_mono divide_right_mono) simp_all
  also have "\<dots> \<le> 4" by simp
  finally have s2: "sum b {100..<4310} \<le> 4" .
  from s1 s2 s3 show ?thesis unfolding split by linarith
qed

lemma hanning_nth:
  "n < 4410 \<Longrightarrow>
   hanning 4410 ! n = 1 / 2 + 1 / 2 * cos (pi * (1 - real 4410 + 2 * real n) / real (4410 - 1))"
  by (simp add: hanning_def del: upt_Suc)

lemma fft_nth:
  "k < length ws \<Longrightarrow>
   fft ws ! k = (\<Sum>j<length ws. complex_of_real (ws ! j)
                   * cis (- (2 * pi * real j * real k / real (length ws))))"
  by (simp add: fft_def Let_def del: upt_Suc)

lemma length_fft: "length (fft ws) = length ws"
  by (simp add: fft_def Let_def)

lemma magnitude_nth:
  assumes "length c = 4410" and "k < 2205"
  shows "length (magnitude c) = 2205"
    and "magnitude c ! k =
          cmod (\<Sum>j<4410. complex_of_real (c ! j * hanning 4410 ! j)
                  * cis (- (2 * pi * real j * real k / 4410)))"
proof -
  let ?ws = "map2 (*) c (hanning 4410)"
  have lw: "length ?ws = 4410" using assms(1) by (simp add: length_hanning)
  have m: "magnitude c = map cmod (take 2205 (fft ?ws))"
    unfolding magnitude_def Let_def assms(1) length_fft lw by simp
  show "length (magnitude c) = 2205"
    unfolding m by (simp add: length_fft assms(1) length_hanning)
  have wn: "?ws ! j = c ! j * hanning 4410 ! j" if "j < 4410" for j
    using that assms(1) by (simp add: length_hanning)
  have "magnitude c ! k = cmod (fft ?ws ! k)"
    unfolding m using assms(2) by (simp add: length_fft assms(1) length_hanning)
  also have "fft ?ws ! k = (\<Sum>j<4410. complex_of_real (?ws ! j)
                   * cis (- (2 * pi * real j * real k / 4410)))"
    using fft_nth[of k ?ws] assms(2) unfolding lw by simp
  also have "\<dots> = (\<Sum>j<4410. complex_of_real (c ! j * hanning 4410 ! j)
                  * cis (- (2 * pi * real j * real k / 4410)))"
    by (rule sum.cong) (simp_all add: wn)
  finally show "magnitude c ! k =
          cmod (\<Sum>j<4410. complex_of_real (c ! j * hanning 4410 ! j)
                  * cis (- (2 * pi * real j * real k / 4410)))" .
qed

lemma edge_weight_sum: "(\<Sum>n<4410. edge_weight n) \<le> 204"
proof (rule edge_sum_bound)
  fix n :: nat assume "100 \<le> n" "n < 4310"
  then show "edge_weight n \<le> pi / 4410" by (simp add: edge_weight_def)
next
  fix n :: nat
  have "pi / 4410 \<le> 1" using pi_less_4 by simp
  then show "edge_weight n \<le> 1" by (simp add: edge_weight_def)
qed

lemma tone_term_bound:
  fixes a e :: real and n k0 :: nat
  assumes n: "n < 4410" and a: "0 \<le> a"
    and e: "0 \<le> e" "e \<le> 1" "100 \<le> n \<and> n < 4310 \<longrightarrow> e = 1"
    and cn: "x = a * (sin (2 * pi * real k0 * real n / 4410) * e)"
  shows "\<bar>x * hanning 4410 ! n
          - a * (sin (2 * pi * real k0 * real n / 4410) * (1 / 2 - 1 / 2 * cos (2 * pi * real n / 4410)))\<bar>
         \<le> a * edge_weight n"
proof -
  define s where "s = sin (2 * pi * real k0 * real n / 4410)"
  define wt where "wt = 1 / 2 - 1 / 2 * cos (2 * pi * real n / 4410)"
  define w where "w = 1 / 2 + 1 / 2 * cos (pi * (1 - real 4410 + 2 * real n) / real (4410 - 1))"
  have hw: "hanning 4410 ! n = w" unfolding w_def by (rule hanning_nth[OF n])
  have w01: "0 \<le> w" "w \<le> 1" unfolding w_def by (rule hann_between)+
  have wt01: "0 \<le> wt" "wt \<le> 1"
  proof -
    have "- 1 \<le> cos (2 * pi * real n / 4410)" "cos (2 * pi * real n / 4410) \<le> 1" by simp_all
    then show "0 \<le> wt" "wt \<le> 1" unfolding wt_def by linarith+
  qed
  have d: "\<bar>e * w - wt\<bar> \<le> edge_weight n"
  proof (cases "100 \<le> n \<and> n < 4310")
    case True
    with e have "e = 1" by blast
    moreover have "\<bar>w - wt\<bar> \<le> pi / real 4410"
      unfolding w_def wt_def using hann_window_close[of 4410 n] n by simp
    moreover from True have "edge_weight n = pi / 4410" unfolding edge_weight_def by (rule if_P)
    ultimately show ?thesis by simp
  next
    case False
    have "0 \<le> e * w" using e w01 by simp
    moreover have "e * w \<le> 1 * 1" using e w01 by (intro mult_mono) simp_all
    ultimately have "\<bar>e * w - wt\<bar> \<le> 1" using wt01 by linarith
    moreover from False have "edge_weight n = 1" unfolding edge_weight_def by (rule if_not_P)
    ultimately show ?thesis by simp
  qed
  have "x * hanning 4410 ! n - a * (s * wt) = a * s * (e * w - wt)"
    unfolding cn hw s_def by (simp add: algebra_simps)
  then have "\<bar>x * hanning 4410 ! n - a * (s * wt)\<bar> = a * \<bar>s\<bar> * \<bar>e * w - wt\<bar>"
    using a by (simp add: abs_mult)
  also have "\<dots> \<le> a * 1 * edge_weight n"
  proof -
    have "\<bar>s\<bar> \<le> 1" unfolding s_def by simp
    then show ?thesis using a d by (intro mult_mono) simp_all
  qed
  finally show ?thesis unfolding s_def wt_def by simp
qed

lemma dft_difference_bound:
  fixes p q b :: "nat \<Rightarrow> real" and a :: real and th :: "nat \<Rightarrow> real"
  assumes a: "0 \<le> a"
    and tb: "\<And>n. n < 4410 \<Longrightarrow> \<bar>p n - a * q n\<bar> \<le> a * b n"
    and bs: "(\<Sum>n<4410. b n) \<le> 204"
  shows "cmod ((\<Sum>n<4410. complex_of_real (p n) * cis (th n))
               - complex_of_real a * (\<Sum>n<4410. complex_of_real (q n) * cis (th n))) \<le> a * 204"
proof -
  have "(\<Sum>n<4410. complex_of_real (p n) * cis (th n))
          - complex_of_real a * (\<Sum>n<4410. complex_of_real (q n) * cis (th n)) =
        (\<Sum>n<4410. complex_of_real (p n - a * q n) * cis (th n))"
    unfolding sum_distrib_left sum_subtractf[symmetric]
    by (rule sum.cong) (simp_all add: algebra_simps)
  also have "cmod \<dots> \<le> (\<Sum>n<4410. cmod (complex_of_real (p n - a * q n) * cis (th n)))"
    by (rule norm_sum)
  also have "\<dots> = (\<Sum>n<4410. \<bar>p n - a * q n\<bar>)"
    by (simp only: norm_mult norm_cis norm_of_real mult_1_right real_norm_def)
  also have "\<dots> \<le> (\<Sum>n<4410. a * b n)"
    by (rule sum_mono) (simp add: tb)
  also have "\<dots> = a * (\<Sum>n<4410. b n)" by (simp only: sum_distrib_left)
  also have "\<dots> \<le> a * 204" using bs a by (rule mult_left_mono)
  finally show ?thesis .
qed

lemma ideal_peak_norm:
  fixes k k0 :: nat and a :: real
  assumes "0 \<le> a"
  shows "cmod (complex_of_real a * (of_nat 4410 * (if k = k0 then 1 / (4 * \<i>)
                     else if k = k0 + 1 \<or> k + 1 = k0 then - 1 / (8 * \<i>) else 0))) =
         (if k = k0 then a * (4410 / 4) else if k = k0 + 1 \<or> k + 1 = k0 then a * (4410 / 8) else 0)"
  using assms by (simp add: norm_mult norm_divide)

lemma tone_chunk_peak:
  fixes c :: "real list" and a :: real and k0 :: nat
  assumes len: "length c = 4410"
    and k0: "2 \<le> k0" "k0 \<le> 2000"
    and a: "0 \<le> a"
    and shape: "\<And>n. n < 4410 \<Longrightarrow>
        \<exists>e. 0 \<le> e \<and> e \<le> 1 \<and> (100 \<le> n \<and> n < 4310 \<longrightarrow> e = 1)
          \<and> c ! n = a * (sin (2 * pi * real k0 * real n / 4410) * e)"
  shows "a * 898 \<le> magnitude c ! k0"
    and "\<And>k. k < 2205 \<Longrightarrow> k \<noteq> k0 \<Longrightarrow> magnitude c ! k \<le> a * 756"
proof -
  define X where "X k = (\<Sum>n<4410. complex_of_real (c ! n * hanning 4410 ! n)
                  * cis (- (2 * pi * real n * real k / 4410)))" for k :: nat
  define Y where "Y k = (\<Sum>n<4410. complex_of_real (sin (2 * pi * real k0 * real n / 4410)
                      * (1 / 2 - 1 / 2 * cos (2 * pi * real n / 4410)))
                  * cis (- (2 * pi * real n * real k / 4410)))" for k :: nat
  define V where "V k = (of_nat 4410 * (if k = k0 then 1 / (4 * \<i>)
                     else if k = k0 + 1 \<or> k + 1 = k0 then - 1 / (8 * \<i>) else 0) :: complex)" for k :: nat
  have mag: "magnitude c ! k = cmod (X k)" if "k < 2205" for k
    unfolding X_def by (rule magnitude_nth(2)[OF len that])
  have Yv: "Y k = V k" if "k < 2205" for k
  proof -
    have "0 < (4410::nat)" "2 * k0 + 2 < 4410" "2 * k < 4410"
      using k0 that by simp_all
    from hann_sine_dft[OF this(1) k0(1) this(2,3)] show ?thesis
      unfolding Y_def V_def by simp
  qed
  have tb: "\<bar>c ! n * hanning 4410 ! n
          - a * (sin (2 * pi * real k0 * real n / 4410) * (1 / 2 - 1 / 2 * cos (2 * pi * real n / 4410)))\<bar>
         \<le> a * edge_weight n" if "n < 4410" for n
  proof -
    from shape[OF that] obtain e where "0 \<le> e" "e \<le> 1" "100 \<le> n \<and> n < 4310 \<longrightarrow> e = 1"
      "c ! n = a * (sin (2 * pi * real k0 * real n / 4410) * e)" by blast
    then show ?thesis by (rule tone_term_bound[OF that a])
  qed
  have err: "cmod (X k - complex_of_real a * Y k) \<le> a * 204" for k
    unfolding X_def Y_def by (rule dft_difference_bound[OF a tb edge_weight_sum])
  have nV: "cmod (complex_of_real a * V k) =
         (if k = k0 then a * (4410 / 4) else if k = k0 + 1 \<or> k + 1 = k0 then a * (4410 / 8) else 0)" for k
    unfolding V_def by (rule ideal_peak_norm[OF a])
  have k0lt: "k0 < 2205" using k0 by simp
  show "a * 898 \<le> magnitude c ! k0"
  proof -
    have "cmod (complex_of_real a * V k0) \<le> cmod (X k0) + cmod (complex_of_real a * V k0 - X k0)"
      by (rule norm_triangle_sub)
    moreover have "cmod (complex_of_real a * V k0 - X k0) = cmod (X k0 - complex_of_real a * V k0)"
      by (rule norm_minus_commute)
    moreover have "cmod (X k0 - complex_of_real a * V k0) \<le> a * 204"
      using err[of k0] unfolding Yv[OF k0lt] .
    moreover have "cmod (complex_of_real a * V k0) = a * (4410 / 4)"
      unfolding nV by simp
    ultimately have "a * (4410 / 4) \<le> cmod (X k0) + a * 204" by linarith
    moreover have "a * 898 + a * 204 \<le> a * (4410 / 4)"
      using a by (simp add: algebra_simps)
    ultimately have "a * 898 \<le> cmod (X k0)" by linarith
    then show ?thesis unfolding mag[OF k0lt] .
  qed
  show "magnitude c ! k \<le> a * 756" if "k < 2205" "k \<noteq> k0" for k
  proof -
    have "cmod (X k) \<le> cmod (complex_of_real a * V k) + cmod (X k - complex_of_real a * V k)"
      by (rule norm_triangle_sub)
    moreover have "cmod (X k - complex_of_real a * V k) \<le> a * 204"
      using err[of k] unfolding Yv[OF that(1)] .
    moreover have "cmod (complex_of_real a * V k) \<le> a * (4410 / 8)"
      unfolding nV using that(2) a by simp
    moreover have "a * (4410 / 8) + a * 204 \<le> a * 756"
      using a by (simp add: algebra_simps)
    ultimately have "cmod (X k) \<le> a * 756" by linarith
    then show ?thesis unfolding mag[OF that(1)] .
  qed
qed

lemma default_bin_frequency:
  assumes "k0 < 2205"
  shows "take (length (fftfreq 4410 (1 / real_of_int 44100)) div 2) (fftfreq 4410 (1 / real_of_int 44100)) ! k0
         = 10 * real k0"
proof -
  have l: "length (fftfreq 4410 (1 / real_of_int 44100)) = 4410"
    by (simp add: fftfreq_def)
  have "fftfreq 4410 (1 / real_of_int 44100) ! k0 = 10 * real k0"
    using assms by (simp add: fftfreq_def del: upt_Suc)
  then show ?thesis unfolding l using assms by simp
qed

lemma tone_chunk_detect:
  fixes c :: "real list" and a :: real and k0 :: nat
  assumes len: "length c = 4410"
    and k0: "2 \<le> k0" "k0 \<le> 2000"
    and a: "8 / 10 \<le> a"
    and shape: "\<And>n. n < 4410 \<Longrightarrow>
        \<exists>e. 0 \<le> e \<and> e \<le> 1 \<and> (100 \<le> n \<and> n < 4310 \<longrightarrow> e = 1)
          \<and> c ! n = a * (sin (2 * pi * real k0 * real n / 4410) * e)"
  shows "detect_dominant_frequency default_config c = Inr (10 * real k0)"
proof -
  have a0: "0 \<le> a" using a by simp
  have k0lt: "k0 < 2205" using k0 by simp
  have lm: "length (magnitude c) = 2205"
    by (rule magnitude_nth(1)[OF len k0lt])
  have hi: "a * 898 \<le> magnitude c ! k0"
    by (rule tone_chunk_peak(1)[OF len k0 a0 shape])
  have lo: "magnitude c ! k \<le> a * 756" if "k < 2205" "k \<noteq> k0" for k
    using tone_chunk_peak(2)[OF len k0 a0 shape, of k] that by blast
  have gap: "a * 756 < a * 898" using a by simp
  have strict: "\<forall>k<length (magnitude c). k \<noteq> k0 \<longrightarrow> magnitude c ! k < magnitude c ! k0"
    unfolding lm using lo hi gap by fastforce
  have k0l: "k0 < length (magnitude c)" unfolding lm by (rule k0lt)
  have mx: "Max (set (magnitude c)) = magnitude c ! k0"
    and am: "argmax (magnitude c) = k0"
    using argmax_unique[OF k0l strict] by simp_all
  have loud: "\<not> Max (set (magnitude c)) < min_amplitude"
  proof -
    have "(1::real) / 100 < 8 / 10 * 898" by simp
    also have "\<dots> \<le> a * 898" using a by simp
    also note hi
    finally show ?thesis unfolding mx min_amplitude_def by simp
  qed
  have ne: "magnitude c \<noteq> []" using lm by auto
  have sr: "sample_rate default_config = 44100" by (simp add: default_config_def)
  have e1: "(length c = 0) = False" "((4410::nat) = 0) = False" using len by simp_all
  have e2: "((44100::int) = 0) = False" by simp
  have e3: "(magnitude c = []) = False" using ne by simp
  have e4: "(Max (set (magnitude c)) < min_amplitude) = False" using loud by simp
  have e5: "\<bar>10 * real k0\<bar> = 10 * real k0" by simp
  show ?thesis
    unfolding detect_dominant_frequency_def Let_def sr e1 e2 e3 e4 if_False len am
      default_bin_frequency[OF k0lt] e5 ..
qed

subsection \<open>The samples of a generated tone\<close>

lemma nth_scale_head:
  assumes "length ramp = k" and "k \<le> length tone" and "i < length tone"
  shows "scale_head k ramp tone ! i = (if i < k then tone ! i * ramp ! i else tone ! i)"
proof (cases "i < k")
  case True
  then have "i < length (map2 (*) (take k tone) ramp)" using assms by simp
  then have "scale_head k ramp tone ! i = map2 (*) (take k tone) ramp ! i"
    unfolding scale_head_def by (simp add: nth_append)
  also have "\<dots> = tone ! i * ramp ! i" using True assms by simp
  finally show ?thesis using True by simp
next
  case False
  have l: "length (map2 (*) (take k tone) ramp) = k" using assms by simp
  from False have "scale_head k ramp tone ! i = drop k tone ! (i - k)"
    unfolding scale_head_def nth_append l by simp
  also have "\<dots> = tone ! i" using False assms by simp
  finally show ?thesis using False by simp
qed

lemma nth_scale_tail:
  assumes "length ramp = k" and "k \<le> length tone" and "i < length tone"
  shows "scale_tail k ramp tone ! i =
           (if i < length tone - k then tone ! i else tone ! i * ramp ! (i - (length tone - k)))"
proof (cases "i < length tone - k")
  case True
  then have "scale_tail k ramp tone ! i = take (length tone - k) tone ! i"
    unfolding scale_tail_def by (simp add: nth_append)
  also have "\<dots> = tone ! i" using True by simp
  finally show ?thesis using True by simp
next
  case False
  let ?m = "length tone - k"
  have l: "length (take ?m tone) = ?m" by simp
  have j: "i - ?m < k" using False assms by linarith
  from False have "scale_tail k ramp tone ! i = map2 (*) (drop ?m tone) ramp ! (i - ?m)"
    unfolding scale_tail_def by (simp add: nth_append)
  also have "\<dots> = drop ?m tone ! (i - ?m) * ramp ! (i - ?m)"
    using j assms by simp
  also have "drop ?m tone ! (i - ?m) = tone ! i" using False assms by simp
  finally show ?thesis using False by simp
qed

lemma fade_in_nth:
  assumes "j < 100"
  shows "0 \<le> linspace 0 1 100 True ! j" and "linspace 0 1 100 True ! j \<le> 1"
proof -
  have v: "linspace 0 1 100 True ! j = real j / 99"
    using assms by (simp add: linspace_def del: upt_Suc)
  show "0 \<le> linspace 0 1 100 True ! j" unfolding v by simp
  show "linspace 0 1 100 True ! j \<le> 1" unfolding v using assms by simp
qed

lemma fade_out_nth:
  assumes "j < 100"
  shows "0 \<le> linspace 1 0 100 True ! j" and "linspace 1 0 100 True ! j \<le> 1"
proof -
  have v: "linspace 1 0 100 True ! j = 1 - real j / 99"
    using assms by (simp add: linspace_def del: upt_Suc)
  show "0 \<le> linspace 1 0 100 True ! j" unfolding v using assms by simp
  show "linspace 1 0 100 True ! j \<le> 1" unfolding v by simp
qed

lemma time_axis_nth:
  "i < n \<Longrightarrow> linspace 0 d n False ! i = real i * (d / real n)"
  by (simp add: linspace_def del: upt_Suc)

lemma generate_tone_shape:
  fixes n :: nat
  assumes cnt: "int_of_product (sample_rate cfg) d = Inr (int n)" and big: "1000 \<le> n"
  shows "\<exists>tone. generate_tone cfg f d = Inr tone \<and> length tone = n
           \<and> (\<forall>i<n. \<exists>e. 0 \<le> e \<and> e \<le> 1 \<and> (100 \<le> i \<and> i < n - 100 \<longrightarrow> e = 1)
                  \<and> tone ! i = sin (2 * pi * f * (real i * (d / real n))) * e)"
proof -
  define raw where "raw = map (\<lambda>x. sin (2 * pi * f * x)) (linspace 0 d n False)"
  define ramp_in where "ramp_in = linspace 0 1 100 True"
  define ramp_out where "ramp_out = linspace 1 0 100 True"
  define faded where "faded = scale_head 100 ramp_in raw"
  define tone where "tone = scale_tail 100 ramp_out faded"
  have lr: "length raw = n" by (simp add: raw_def length_linspace)
  have li: "length ramp_in = 100" and lo: "length ramp_out = 100"
    by (simp_all add: ramp_in_def ramp_out_def length_linspace)
  have k: "100 \<le> length raw" using big lr by simp
  have lf: "length faded = n" unfolding faded_def using length_scale_head[OF li k] lr by simp
  have k': "100 \<le> length faded" using big lf by simp
  have lt: "length tone = n" unfolding tone_def using length_scale_tail[OF lo k'] lf by simp
  have fd: "min 100 (n div 10) = 100" using big by simp
  have gen: "generate_tone cfg f d = Inr tone"
    unfolding generate_tone_def Let_def cnt
    by (simp add: fd tone_def faded_def raw_def ramp_in_def ramp_out_def)
  have pt: "\<exists>e. 0 \<le> e \<and> e \<le> 1 \<and> (100 \<le> i \<and> i < n - 100 \<longrightarrow> e = 1)
                  \<and> tone ! i = sin (2 * pi * f * (real i * (d / real n))) * e" if i: "i < n" for i
  proof -
    have r: "raw ! i = sin (2 * pi * f * (real i * (d / real n)))"
      unfolding raw_def using i by (simp add: length_linspace time_axis_nth)
    have f: "faded ! i = (if i < 100 then raw ! i * ramp_in ! i else raw ! i)"
      unfolding faded_def using nth_scale_head[OF li k, of i] i lr by simp
    have t: "tone ! i = (if i < n - 100 then faded ! i else faded ! i * ramp_out ! (i - (n - 100)))"
      unfolding tone_def using nth_scale_tail[OF lo k', of i] i lf by simp
    define e1 where "e1 = (if i < 100 then ramp_in ! i else 1)"
    define e2 where "e2 = (if i < n - 100 then 1 else ramp_out ! (i - (n - 100)))"
    have b1: "0 \<le> e1" "e1 \<le> 1"
      unfolding e1_def ramp_in_def using fade_in_nth[of i] by auto
    have j: "i - (n - 100) < 100" if "\<not> i < n - 100" using that i big by linarith
    have b2: "0 \<le> e2" "e2 \<le> 1"
      unfolding e2_def ramp_out_def using fade_out_nth[of "i - (n - 100)"] j by auto
    have v: "tone ! i = raw ! i * (e1 * e2)"
      unfolding t f e1_def e2_def by simp
    have "0 \<le> e1 * e2" using b1 b2 by simp
    moreover have "e1 * e2 \<le> 1 * 1" using b1 b2 by (intro mult_mono) simp_all
    moreover have "100 \<le> i \<and> i < n - 100 \<longrightarrow> e1 * e2 = 1"
      unfolding e1_def e2_def by simp
    ultimately show ?thesis using v r by auto
  qed
  from gen lt pt show ?thesis by blast
qed

lemma sin_shift_periods:
  fixes x :: real and k :: nat
  shows "sin (x + 2 * real k * pi) = sin x"
  by (simp add: sin_add)

lemma bit_tone_chunk_detect:
  fixes a :: real and k0 :: nat
  assumes a: "8 / 10 \<le> a" and k0: "2 \<le> k0" "k0 \<le> 2000"
    and gen: "generate_tone default_config (10 * real k0) (bit_duration default_config) = Inr tone"
  shows "length tone = 4410"
    and "detect_dominant_frequency default_config (map ((*) a) tone) = Inr (10 * real k0)"
proof -
  have cnt: "int_of_product (sample_rate default_config) (bit_duration default_config) = Inr (int 4410)"
    unfolding int_of_product_default_bit by simp
  from generate_tone_shape[OF cnt, of "10 * real k0"] gen
  have len: "length tone = 4410"
    and sh: "\<And>i. i < 4410 \<Longrightarrow> \<exists>e. 0 \<le> e \<and> e \<le> 1 \<and> (100 \<le> i \<and> i < 4410 - 100 \<longrightarrow> e = 1)
        \<and> tone ! i = sin (2 * pi * (10 * real k0) * (real i * (bit_duration default_config / real 4410))) * e"
    by auto
  show "length tone = 4410" by (rule len)
  have ang: "2 * pi * (10 * real k0) * (real i * (bit_duration default_config / real 4410)) =
             2 * pi * real k0 * real i / 4410" for i
    by (simp add: default_config_def)
  show "detect_dominant_frequency default_config (map ((*) a) tone) = Inr (10 * real k0)"
  proof (rule tone_chunk_detect[OF _ k0 a])
    show "length (map ((*) a) tone) = 4410" using len by simp
    fix n :: nat assume n: "n < 4410"
    from sh[OF n] obtain e where e: "0 \<le> e" "e \<le> 1" "100 \<le> n \<and> n < 4410 - 100 \<longrightarrow> e = 1"
      and t: "tone ! n = sin (2 * pi * real k0 * real n / 4410) * e"
      unfolding ang by blast
    have "map ((*) a) tone ! n = a * (sin (2 * pi * real k0 * real n / 4410) * e)"
      using n len t by simp
    with e show "\<exists>e. 0 \<le> e \<and> e \<le> 1 \<and> (100 \<le> n \<and> n < 4310 \<longrightarrow> e = 1)
          \<and> map ((*) a) tone ! n = a * (sin (2 * pi * real k0 * real n / 4410) * e)"
      by auto
  qed
qed

lemma frame_tone_chunks_detect:
  fixes a :: real and k0 :: nat
  assumes a: "8 / 10 \<le> a" and k0: "2 \<le> k0" "k0 \<le> 2000"
    and gen: "generate_tone default_config (10 * real k0) (2 / 10) = Inr tone"
  shows "length tone = 8820"
    and "detect_dominant_frequency default_config (map ((*) a) (take 4410 tone)) = Inr (10 * real k0)"
    and "detect_dominant_frequency default_config (map ((*) a) (drop 4410 tone)) = Inr (10 * real k0)"
proof -
  have cnt: "int_of_product (sample_rate default_config) (2 / 10) = Inr (int 8820)"
    unfolding int_of_product_default_fifth by simp
  from generate_tone_shape[OF cnt, of "10 * real k0"] gen
  have len: "length tone = 8820"
    and sh: "\<And>i. i < 8820 \<Longrightarrow> \<exists>e. 0 \<le> e \<and> e \<le> 1 \<and> (100 \<le> i \<and> i < 8820 - 100 \<longrightarrow> e = 1)
        \<and> tone ! i = sin (2 * pi * (10 * real k0) * (real i * (2 / 10 / real 8820))) * e"
    by auto
  show "length tone = 8820" by (rule len)
  have ang: "2 * pi * (10 * real k0) * (real i * (2 / 10 / real 8820)) =
             2 * pi * real k0 * real i / 4410" for i
    by simp
  show "detect_dominant_frequency default_config (map ((*) a) (take 4410 tone)) = Inr (10 * real k0)"
  proof (rule tone_chunk_detect[OF _ k0 a])
    show "length (map ((*) a) (take 4410 tone)) = 4410" using len by simp
    fix n :: nat assume n: "n < 4410"
    then have n': "n < 8820" by simp
    from sh[OF n'] obtain e where e: "0 \<le> e" "e \<le> 1" "100 \<le> n \<and> n < 8820 - 100 \<longrightarrow> e = 1"
      and t: "tone ! n = sin (2 * pi * real k0 * real n / 4410) * e"
      unfolding ang by blast
    have "map ((*) a) (take 4410 tone) ! n = a * (sin (2 * pi * real k0 * real n / 4410) * e)"
      using n len t by simp
    with e show "\<exists>e. 0 \<le> e \<and> e \<le> 1 \<and> (100 \<le> n \<and> n < 4310 \<longrightarrow> e = 1)
          \<and> map ((*) a) (take 4410 tone) ! n = a * (sin (2 * pi * real k0 * real n / 4410) * e)"
      by auto
  qed
  show "detect_dominant_frequency default_config (map ((*) a) (drop 4410 tone)) = Inr (10 * real k0)"
  proof (rule tone_chunk_detect[OF _ k0 a])
    show "length (map ((*) a) (drop 4410 tone)) = 4410" using len by simp
    fix n :: nat assume n: "n < 4410"
    then have n': "4410 + n < 8820" by simp
    from sh[OF n'] obtain e where e: "0 \<le> e" "e \<le> 1"
        "100 \<le> 4410 + n \<and> 4410 + n < 8820 - 100 \<longrightarrow> e = 1"
      and t: "tone ! (4410 + n) = sin (2 * pi * real k0 * real (4410 + n) / 4410) * e"
      unfolding ang by blast
    have "2 * pi * real k0 * real (4410 + n) / 4410 = 2 * pi * real k0 * real n / 4410 + 2 * real k0 * pi"
      by (simp add: field_simps)
    then have "sin (2 * pi * real k0 * real (4410 + n) / 4410) = sin (2 * pi * real k0 * real n / 4410)"
      by (simp only: sin_shift_periods)
    with t have t': "tone ! (4410 + n) = sin (2 * pi * real k0 * real n / 4410) * e" by simp
    have "map ((*) a) (drop 4410 tone) ! n = a * (sin (2 * pi * real k0 * real n / 4410) * e)"
      using n len t' by simp
    moreover from e(3) have "100 \<le> n \<and> n < 4310 \<longrightarrow> e = 1" by simp
    ultimately show "\<exists>e. 0 \<le> e \<and> e \<le> 1 \<and> (100 \<le> n \<and> n < 4310 \<longrightarrow> e = 1)
          \<and> map ((*) a) (drop 4410 tone) ! n = a * (sin (2 * pi * real k0 * real n / 4410) * e)"
      using e(1,2) by auto
  qed
qed

subsection \<open>The chunks of the transmitted signal\<close>

lemma chunk_loop_shift:
  "chunk_loop (xs @ ys) chunk_size (length xs + j) = chunk_loop ys chunk_size j"
proof (induction ys chunk_size j rule: chunk_loop.induct)
  case (1 ys chunk_size j)
  show ?case
  proof (cases "chunk_size = 0 \<or> length ys \<le> j")
    case True
    then show ?thesis
      by (subst chunk_loop.simps, subst (2) chunk_loop.simps) auto
  next
    case False
    have ih: "chunk_loop (xs @ ys) chunk_size (length xs + (j + chunk_size)) =
              chunk_loop ys chunk_size (j + chunk_size)"
      by (rule "1.IH"[OF False refl])
    have l: "chunk_loop (xs @ ys) chunk_size (length xs + j) =
             (if chunk_size div 2 \<le> length (take chunk_size (drop j ys))
              then [take chunk_size (drop j ys)] else [])
             @ chunk_loop (xs @ ys) chunk_size (length xs + j + chunk_size)"
      using False by (subst chunk_loop.simps) (simp add: Let_def)
    have r: "chunk_loop ys chunk_size j =
             (if chunk_size div 2 \<le> length (take chunk_size (drop j ys))
              then [take chunk_size (drop j ys)] else [])
             @ chunk_loop ys chunk_size (j + chunk_size)"
      using False by (subst chunk_loop.simps) (simp add: Let_def)
    show ?thesis unfolding l r using ih by (simp add: add.assoc)
  qed
qed

lemma chunk_loop_peel:
  assumes "length c = chunk_size" and "0 < chunk_size"
  shows "chunk_loop (c @ rest) chunk_size 0 = c # chunk_loop rest chunk_size 0"
proof -
  have "chunk_loop (c @ rest) chunk_size 0 =
          (if chunk_size div 2 \<le> length (take chunk_size (drop 0 (c @ rest)))
           then [take chunk_size (drop 0 (c @ rest))] else [])
          @ chunk_loop (c @ rest) chunk_size (0 + chunk_size)"
    using assms by (subst chunk_loop.simps) (simp add: Let_def)
  moreover have "take chunk_size (drop 0 (c @ rest)) = c" using assms by simp
  moreover have "chunk_loop (c @ rest) chunk_size (0 + chunk_size) = chunk_loop rest chunk_size 0"
    using chunk_loop_shift[of c rest chunk_size 0] assms by simp
  ultimately show ?thesis using assms by simp
qed

lemma chunk_loop_peel_all:
  assumes "\<forall>c\<in>set cs. length c = chunk_size" and "0 < chunk_size"
  shows "chunk_loop (concat cs @ rest) chunk_size 0 = cs @ chunk_loop rest chunk_size 0"
  using assms(1)
proof (induction cs)
  case Nil
  then show ?case by simp
next
  case (Cons c cs)
  then have "length c = chunk_size" by simp
  from chunk_loop_peel[OF this assms(2), of "concat cs @ rest"] Cons show ?case by simp
qed

lemma chunk_loop_empty: "chunk_loop [] chunk_size 0 = []"
  by (subst chunk_loop.simps) simp

lemma analyze_chunks_append:
  assumes "analyze_chunks cfg xs = Inr a" and "analyze_chunks cfg ys = Inr b"
  shows "analyze_chunks cfg (xs @ ys) = Inr (a @ b)"
  using assms(1)
proof (induction xs arbitrary: a)
  case Nil
  then show ?case using assms(2) by simp
next
  case (Cons x xs)
  from Cons.prems obtain freq r where d: "detect_dominant_frequency cfg x = Inr freq"
    and r: "analyze_chunks cfg xs = Inr r" and a: "a = (freq, classify_frequency freq) # r"
    by (auto split: sum.splits)
  from Cons.IH[OF r] have "analyze_chunks cfg (xs @ ys) = Inr (r @ b)" .
  with d a show ?case by simp
qed

lemma tone_samples_bounded:
  fixes n :: nat
  assumes cnt: "int_of_product (sample_rate cfg) d = Inr (int n)" and big: "1000 \<le> n"
    and gen: "generate_tone cfg f d = Inr tone"
  shows "\<forall>x\<in>set tone. \<bar>x\<bar> \<le> 1"
proof
  fix x assume "x \<in> set tone"
  then obtain i where i: "i < length tone" and x: "x = tone ! i"
    by (auto simp: in_set_conv_nth)
  from generate_tone_shape[OF cnt big, of f] gen
  have len: "length tone = n"
    and sh: "\<And>i. i < n \<Longrightarrow> \<exists>e. 0 \<le> e \<and> e \<le> 1 \<and> (100 \<le> i \<and> i < n - 100 \<longrightarrow> e = 1)
        \<and> tone ! i = sin (2 * pi * f * (real i * (d / real n))) * e"
    by auto
  from i len sh[of i] obtain e where e: "0 \<le> e" "e \<le> 1"
    and t: "tone ! i = sin (2 * pi * f * (real i * (d / real n))) * e"
    by auto
  have "\<bar>sin (2 * pi * f * (real i * (d / real n))) * e\<bar> \<le> 1 * 1"
    unfolding abs_mult using e by (intro mult_mono) simp_all
  then show "\<bar>x\<bar> \<le> 1" unfolding x t by simp
qed

lemma default_bit_tones_analysed:
  fixes a :: real
  assumes a: "8 / 10 \<le> a"
  shows "bit_tones default_config bits = Inr tones \<Longrightarrow>
         (\<forall>t\<in>set tones. length t = 4410 \<and> (\<forall>x\<in>set t. \<bar>x\<bar> \<le> 1))
         \<and> analyze_chunks default_config (map (map ((*) a)) tones) =
             Inr (map (\<lambda>freq. (freq, classify_frequency freq))
                    (map (\<lambda>bit. if bit = CHR ''1'' then freq_1 else freq_0) bits))"
proof (induction bits arbitrary: tones)
  case Nil
  then show ?case by simp
next
  case (Cons b bits)
  let ?f = "if b = CHR ''1'' then freq_1 else freq_0"
  from Cons.prems obtain tone rest where g: "generate_tone default_config ?f (bit_duration default_config) = Inr tone"
    and r: "bit_tones default_config bits = Inr rest" and ts: "tones = tone # rest"
    by (auto split: sum.splits)
  define k0 :: nat where "k0 = (if b = CHR ''1'' then 200 else 100)"
  have f: "?f = 10 * real k0" by (simp add: k0_def freq_1_def freq_0_def)
  have k0: "2 \<le> k0" "k0 \<le> 2000" by (simp_all add: k0_def)
  from g have g': "generate_tone default_config (10 * real k0) (bit_duration default_config) = Inr tone"
    unfolding f .
  have len: "length tone = 4410"
    and det: "detect_dominant_frequency default_config (map ((*) a) tone) = Inr ?f"
    using bit_tone_chunk_detect[OF a k0 g'] unfolding f by simp_all
  have cnt: "int_of_product (sample_rate default_config) (bit_duration default_config) = Inr (int 4410)"
    unfolding int_of_product_default_bit by simp
  have bnd: "\<forall>x\<in>set tone. \<bar>x\<bar> \<le> 1"
    by (rule tone_samples_bounded[OF cnt _ g]) simp
  from Cons.IH[OF r] have ih1: "\<forall>t\<in>set rest. length t = 4410 \<and> (\<forall>x\<in>set t. \<bar>x\<bar> \<le> 1)"
    and ih2: "analyze_chunks default_config (map (map ((*) a)) rest) =
             Inr (map (\<lambda>freq. (freq, classify_frequency freq))
                    (map (\<lambda>bit. if bit = CHR ''1'' then freq_1 else freq_0) bits))"
    by simp_all
  show ?case unfolding ts using len bnd ih1 by (simp add: det ih2)
qed

lemma create_signal_default_value:
  "\<exists>a start_tone tones end_tone.
      8 / 10 \<le> a
      \<and> generate_tone default_config freq_start (2 / 10) = Inr start_tone
      \<and> bit_tones default_config (text_to_binary msg) = Inr tones
      \<and> generate_tone default_config freq_end (2 / 10) = Inr end_tone
      \<and> create_signal default_config msg =
          Inr (map ((*) a) (start_tone @ replicate 4410 0 @ concat tones @ replicate 4410 0 @ end_tone))"
proof -
  obtain start_tone where s: "generate_tone default_config freq_start (2 / 10) = Inr start_tone"
    and sl: "length start_tone = 8820"
    using default_frame_tone by blast
  obtain end_tone where e: "generate_tone default_config freq_end (2 / 10) = Inr end_tone"
    and el: "length end_tone = 8820"
    using default_frame_tone by blast
  obtain tones where t: "bit_tones default_config (text_to_binary msg) = Inr tones"
    using default_bit_tones by blast
  define full where "full = start_tone @ replicate 4410 (0::real) @ concat tones @ replicate 4410 0 @ end_tone"
  define M where "M = Max (set (map abs full))"
  have ne: "full \<noteq> []" using sl unfolding full_def by auto
  have v: "create_signal default_config msg =
          Inr (if M > 0 then map (\<lambda>x. x / M * (8 / 10)) full else full)"
    unfolding create_signal_def Let_def s e t int_of_product_default_tenth M_def full_def
    using ne[unfolded full_def] by simp
  have cnt: "int_of_product (sample_rate default_config) (2 / 10) = Inr (int 8820)"
    unfolding int_of_product_default_fifth by simp
  have bs: "\<forall>x\<in>set start_tone. \<bar>x\<bar> \<le> 1"
    by (rule tone_samples_bounded[OF cnt _ s]) simp
  have be: "\<forall>x\<in>set end_tone. \<bar>x\<bar> \<le> 1"
    by (rule tone_samples_bounded[OF cnt _ e]) simp
  have bt: "\<forall>t\<in>set tones. \<forall>x\<in>set t. \<bar>x\<bar> \<le> 1"
    using default_bit_tones_analysed[of 1, OF _ t] by simp
  have ball: "\<forall>x\<in>set full. \<bar>x\<bar> \<le> 1"
    unfolding full_def using bs be bt by auto
  have M1: "M \<le> 1"
    unfolding M_def using ne ball by (subst Max_le_iff) auto
  define a where "a = (if M > 0 then 8 / 10 / M else 1)"
  have a: "8 / 10 \<le> a"
  proof (cases "M > 0")
    case True
    then have "8 / 10 * M \<le> 8 / 10 * 1" using M1 by (intro mult_left_mono) simp_all
    then have "8 / 10 \<le> 8 / 10 / M" using True by (simp add: field_simps)
    then show ?thesis using True by (simp add: a_def)
  next
    case False
    then show ?thesis by (simp add: a_def)
  qed
  have "(if M > 0 then map (\<lambda>x. x / M * (8 / 10)) full else full) = map ((*) a) full"
  proof (cases "M > 0")
    case True
    then have "(\<lambda>x. x / M * (8 / 10)) = (*) a" by (auto simp: a_def fun_eq_iff)
    then show ?thesis using True by simp
  next
    case False
    then have "(*) a = (\<lambda>x. x)" by (auto simp: a_def fun_eq_iff)
    then show ?thesis using False by simp
  qed
  with v have "create_signal default_config msg = Inr (map ((*) a) full)" by simp
  with a s t e show ?thesis unfolding full_def by blast
qed

lemma silent_chunk_detect:
  "detect_dominant_frequency default_config (replicate 4410 0) = Inr 0"
proof -
  have "magnitude (replicate 4410 0) \<noteq> [] \<and> Max (set (magnitude (replicate 4410 0))) < min_amplitude"
    by (rule zero_chunk_quiet) simp_all
  moreover have "sample_rate default_config \<noteq> 0" by (simp add: default_config_def)
  ultimately show ?thesis by (intro detect_quiet) simp_all
qed

lemma default_frame_analysed:
  "\<exists>signal. create_signal default_config msg = Inr signal
      \<and> (\<exists>chunks. make_chunks default_config signal = Inr chunks
            \<and> analyze_chunks default_config chunks = Inr (frame_classifications (text_to_binary msg)))"
proof -
  from create_signal_default_value[of msg]
  obtain a start_tone tones end_tone where a: "8 / 10 \<le> a"
    and s: "generate_tone default_config freq_start (2 / 10) = Inr start_tone"
    and t: "bit_tones default_config (text_to_binary msg) = Inr tones"
    and e: "generate_tone default_config freq_end (2 / 10) = Inr end_tone"
    and v: "create_signal default_config msg =
          Inr (map ((*) a) (start_tone @ replicate 4410 0 @ concat tones @ replicate 4410 0 @ end_tone))"
    by blast
  define c0 where "c0 = map ((*) a) (take 4410 start_tone)"
  define c1 where "c1 = map ((*) a) (drop 4410 start_tone)"
  define e0 where "e0 = map ((*) a) (take 4410 end_tone)"
  define e1 where "e1 = map ((*) a) (drop 4410 end_tone)"
  define z where "z = replicate 4410 (0::real)"
  define T where "T = map (map ((*) a)) tones"
  have fs: "freq_start = 10 * real (50::nat)" and fe: "freq_end = 10 * real (300::nat)"
    by (simp_all add: freq_start_def freq_end_def)
  have ls: "length start_tone = 8820"
    and d0: "detect_dominant_frequency default_config c0 = Inr freq_start"
    and d1: "detect_dominant_frequency default_config c1 = Inr freq_start"
    using frame_tone_chunks_detect[OF a _ _ s[unfolded fs]] unfolding c0_def c1_def fs by simp_all
  have le: "length end_tone = 8820"
    and d2: "detect_dominant_frequency default_config e0 = Inr freq_end"
    and d3: "detect_dominant_frequency default_config e1 = Inr freq_end"
    using frame_tone_chunks_detect[OF a _ _ e[unfolded fe]] unfolding e0_def e1_def fe by simp_all
  have dz: "detect_dominant_frequency default_config z = Inr 0"
    unfolding z_def by (rule silent_chunk_detect)
  from default_bit_tones_analysed[OF a t]
  have lt: "\<forall>t\<in>set tones. length t = 4410"
    and aT: "analyze_chunks default_config T =
             Inr (map (\<lambda>freq. (freq, classify_frequency freq))
                    (map (\<lambda>bit. if bit = CHR ''1'' then freq_1 else freq_0) (text_to_binary msg)))"
    unfolding T_def by simp_all
  have lT: "\<forall>c\<in>set T. length c = 4410" unfolding T_def using lt by simp
  have mz: "map ((*) a) (replicate 4410 0) = z" unfolding z_def by simp
  have sp: "map ((*) a) start_tone = c0 @ c1"
    unfolding c0_def c1_def by (simp add: map_append[symmetric] del: map_append)
  have ep: "map ((*) a) end_tone = e0 @ e1"
    unfolding e0_def e1_def by (simp add: map_append[symmetric] del: map_append)
  have sig: "map ((*) a) (start_tone @ replicate 4410 0 @ concat tones @ replicate 4410 0 @ end_tone) =
             c0 @ c1 @ z @ concat T @ z @ e0 @ e1 @ []"
    unfolding map_append mz sp ep T_def map_concat by simp
  have l0: "length c0 = 4410" "length c1 = 4410" "length e0 = 4410" "length e1 = 4410" "length z = 4410"
    using ls le by (simp_all add: c0_def c1_def e0_def e1_def z_def)
  have pos: "0 < (4410::nat)" by simp
  have ch: "chunk_loop (c0 @ c1 @ z @ concat T @ z @ e0 @ e1 @ []) 4410 0 = [c0, c1, z] @ T @ [z, e0, e1]"
    unfolding chunk_loop_peel[OF l0(1) pos] chunk_loop_peel[OF l0(2) pos] chunk_loop_peel[OF l0(5) pos]
      chunk_loop_peel_all[OF lT pos] chunk_loop_peel[OF l0(3) pos] chunk_loop_peel[OF l0(4) pos]
      chunk_loop_empty
    by simp
  have mk: "make_chunks default_config (c0 @ c1 @ z @ concat T @ z @ e0 @ e1 @ []) =
            Inr ([c0, c1, z] @ T @ [z, e0, e1])"
    unfolding make_chunks_def Let_def int_of_product_default_bit ch[symmetric] by simp
  have a1: "analyze_chunks default_config [c0, c1, z] =
            Inr (map (\<lambda>freq. (freq, classify_frequency freq)) [freq_start, freq_start, 0])"
    by (simp add: d0 d1 dz)
  have a3: "analyze_chunks default_config [z, e0, e1] =
            Inr (map (\<lambda>freq. (freq, classify_frequency freq)) [0, freq_end, freq_end])"
    by (simp add: d2 d3 dz)
  have "analyze_chunks default_config ([c0, c1, z] @ T @ [z, e0, e1]) =
          Inr (map (\<lambda>freq. (freq, classify_frequency freq)) [freq_start, freq_start, 0]
               @ map (\<lambda>freq. (freq, classify_frequency freq))
                    (map (\<lambda>bit. if bit = CHR ''1'' then freq_1 else freq_0) (text_to_binary msg))
               @ map (\<lambda>freq. (freq, classify_frequency freq)) [0, freq_end, freq_end])"
    by (intro analyze_chunks_append a1 aT a3)
  also have "\<dots> = Inr (frame_classifications (text_to_binary msg))"
    unfolding frame_classifications_def frame_chunk_frequencies_def by simp
  finally have an: "analyze_chunks default_config ([c0, c1, z] @ T @ [z, e0, e1]) =
          Inr (frame_classifications (text_to_binary msg))" .
  from v sig mk an show ?thesis by auto
qed

subsection \<open>Decoding a transmitted frame\<close>

lemma frame_of_HI_classifications:
  "frame_classifications (text_to_binary (map of_char ''HI'')) =
     [(500, START), (500, START), (0, NOISE),
      (1000, ZERO), (2000, ONE), (1000, ZERO), (1000, ZERO),
      (2000, ONE), (1000, ZERO), (1000, ZERO), (1000, ZERO),
      (1000, ZERO), (2000, ONE), (1000, ZERO), (1000, ZERO),
      (2000, ONE), (1000, ZERO), (1000, ZERO), (2000, ONE),
      (0, NOISE), (3000, END), (3000, END)]"
  by code_simp

text \<open>
  C1. The round trip fails on \<^verbatim>\<open>"HI"\<close> at the default rate and bit duration: the signal
  that \<^verbatim>\<open>create_signal\<close> returns is decoded by \<^verbatim>\<open>process_audio\<close> to \<^verbatim>\<open>$$[128]\<close>.
  The first \<open>START\<close> chunk sets \<open>start_idx = 0\<close>, so \<open>data_start = 1\<close> is the second
  chunk of the start tone; it is not \<open>NOISE\<close>, the loop that should skip the silence after
  the start tone does not run, and the silent chunk (frequency 0) is taken for a data chunk
  and guessed as \<^verbatim>\<open>'0'\<close>. The 17 bits \<^verbatim>\<open>00100100001001001\<close> are padded to 24 and decoded
  to \<^verbatim>\<open>$$[128]\<close>.
\<close>

theorem noiseless_round_trip_HI:
  "\<exists>signal. create_signal default_config (map of_char ''HI'') = Inr signal
      \<and> process_audio default_config signal = Inr ''$$[128]''"
proof -
  from default_frame_analysed[of "map of_char ''HI''"]
  obtain signal chunks where c: "create_signal default_config (map of_char ''HI'') = Inr signal"
    and m: "make_chunks default_config signal = Inr chunks"
    and a: "analyze_chunks default_config chunks = Inr (frame_classifications (text_to_binary (map of_char ''HI'')))"
    by blast
  have p: "process_classifications (frame_classifications (text_to_binary (map of_char ''HI''))) = Inr ''$$[128]''"
    by code_simp
  have "process_audio default_config signal = Inr ''$$[128]''"
    by (simp only: process_audio_def m a sum.case p)
  with c show ?thesis by blast
qed

end
